theory Spec2Isabelle
  imports Main
begin

section \<open>The remo client: src/remo/api.py\<close>

subsection \<open>Python values and exceptions\<close>

text \<open>
  JSON documents, as \<open>resp.json()\<close> returns them and as \<open>Exception(...)\<close> carries them.
\<close>

datatype json =
    JNull
  | JBool bool
  | JNum int
  | JStr string
  | JArr "json list"
  | JObj "(string \<times> json) list"

text \<open>
  The exceptions the modelled code can raise. \<open>IndexError\<close> carries the interpreter's
  message, which tells an empty list from an empty string; \<open>Exception\<close> carries the
  argument of \<open>raise Exception(...)\<close>.
\<close>

datatype py_error =
    IndexError string
  | ZeroDivisionError
  | OverflowError
  | OSError
  | AttributeError
  | JSONDecodeError
  | ConnectionError
  | Exception json

subsection \<open>API.split_files_by_size\<close>

definition bulk_size :: nat where
  "bulk_size = 8 * 1024 * 1024"

text \<open>
  The \<open>for path in files\<close> loop with its three variables \<open>groups\<close>, \<open>bulk\<close> and
  \<open>total_size\<close>. \<open>getsize\<close> is \<open>os.path.getsize\<close>: \<open>None\<close> where it raises \<open>OSError\<close>.
\<close>

fun split_loop ::
  "('p \<Rightarrow> nat option) \<Rightarrow> 'p list \<Rightarrow> 'p list list \<Rightarrow> 'p list \<Rightarrow> nat
    \<Rightarrow> py_error + ('p list list \<times> 'p list \<times> nat)" where
  "split_loop getsize [] groups bulk total_size = Inr (groups, bulk, total_size)"
| "split_loop getsize (path # files) groups bulk total_size =
     (case getsize path of
        None \<Rightarrow> Inl OSError
      | Some sz \<Rightarrow>
          (let total_size' = total_size + sz; bulk' = bulk @ [path]
           in if total_size' \<ge> bulk_size
              then split_loop getsize files (groups @ [bulk']) [] 0
              else split_loop getsize files groups bulk' total_size'))"

definition split_files_by_size ::
  "('p \<Rightarrow> nat option) \<Rightarrow> 'p list \<Rightarrow> py_error + 'p list list" where
  "split_files_by_size getsize files =
     (case split_loop getsize files [] [] 0 of
        Inl e \<Rightarrow> Inl e
      | Inr (groups, bulk, total_size) \<Rightarrow>
          Inr (if length bulk \<noteq> 0 then groups @ [bulk] else groups))"

text \<open>The bytes of a batch, as the loop sums them.\<close>

definition batch_bytes :: "('p \<Rightarrow> nat option) \<Rightarrow> 'p list \<Rightarrow> nat" where
  "batch_bytes getsize bulk = sum_list (map (\<lambda>p. the (getsize p)) bulk)"

text \<open>
  A batch the loop has closed: not empty, its bytes reach the bulk size, and they did not
  before its last file was appended.
\<close>

definition closed_batch :: "('p \<Rightarrow> nat option) \<Rightarrow> 'p list \<Rightarrow> bool" where
  "closed_batch getsize g \<longleftrightarrow>
     g \<noteq> [] \<and> batch_bytes getsize g \<ge> bulk_size \<and> batch_bytes getsize (butlast g) < bulk_size"

subsection \<open>Values passed to the URL builder\<close>

text \<open>
  The arguments of \<open>_build_url\<close> are Python objects. The model keeps the ones the client
  passes: \<open>None\<close>, booleans, integers and strings as positional segments and as query
  values, and lists of these as query values. A \<open>str\<close> is kept as its UTF-8 bytes:
  \<open>'/'\<close>, \<open>','\<close> and \<open>'?'\<close> are single bytes that occur in no other character's
  encoding, so \<open>strip\<close>, \<open>split\<close>, \<open>in\<close> and the last-character test read the same on
  the bytes. Floats and nested containers are outside the model.
\<close>

datatype atom = ANone | ABool bool | AInt int | AStr string

datatype qval = Atom atom | QList "atom list"

definition digit_char :: "nat \<Rightarrow> char" where
  "digit_char n = ''0123456789'' ! n"

fun str_nat :: "nat \<Rightarrow> string" where
  "str_nat n = (if n < 10 then [digit_char n] else str_nat (n div 10) @ [digit_char (n mod 10)])"

definition str_int :: "int \<Rightarrow> string" where
  "str_int i = (if i < 0 then CHR ''-'' # str_nat (nat (- i)) else str_nat (nat i))"

text \<open>\<open>str(x)\<close>, which is also what \<open>'{}'.format(x)\<close> renders.\<close>

fun py_str :: "atom \<Rightarrow> string" where
  "py_str ANone = ''None''"
| "py_str (ABool b) = (if b then ''True'' else ''False'')"
| "py_str (AInt i) = str_int i"
| "py_str (AStr s) = s"

text \<open>Truth value testing, as \<open>if val:\<close> does it.\<close>

fun truthy_atom :: "atom \<Rightarrow> bool" where
  "truthy_atom ANone = False"
| "truthy_atom (ABool b) = b"
| "truthy_atom (AInt i) = (i \<noteq> 0)"
| "truthy_atom (AStr s) = (s \<noteq> [])"

fun truthy :: "qval \<Rightarrow> bool" where
  "truthy (Atom a) = truthy_atom a"
| "truthy (QList vs) = (vs \<noteq> [])"

subsection \<open>String methods\<close>

text \<open>\<open>s.strip('/')\<close>\<close>

definition strip_slash :: "string \<Rightarrow> string" where
  "strip_slash s =
     rev (dropWhile (\<lambda>c. c = CHR ''/'') (rev (dropWhile (\<lambda>c. c = CHR ''/'') s)))"

text \<open>\<open>sep.join(xs)\<close>\<close>

fun join :: "string \<Rightarrow> string list \<Rightarrow> string" where
  "join sep [] = []"
| "join sep [x] = x"
| "join sep (x # y # ys) = x @ sep @ join sep (y # ys)"

text \<open>\<open>s.split(c)\<close> for a one-character separator: never an empty list.\<close>

fun split_on :: "char \<Rightarrow> string \<Rightarrow> string list" where
  "split_on c [] = [[]]"
| "split_on c (x # xs) =
     (if x = c then [] # split_on c xs
      else (case split_on c xs of
              [] \<Rightarrow> [[x]]
            | w # ws \<Rightarrow> (x # w) # ws))"

text \<open>
  \<open>urllib.parse.quote(s)\<close> with its default \<open>safe='/'\<close>: the unreserved characters
  (letters, digits and \<open>_.-~\<close>) and \<open>/\<close> stay, every other byte becomes \<open>%XX\<close> in
  upper-case hexadecimal.
\<close>

definition always_safe :: "char \<Rightarrow> bool" where
  "always_safe c \<longleftrightarrow>
     c \<in> set (''ABCDEFGHIJKLMNOPQRSTUVWXYZ'' @ ''abcdefghijklmnopqrstuvwxyz''
              @ ''0123456789'' @ ''_.-~'')"

definition hex_digit :: "nat \<Rightarrow> char" where
  "hex_digit n = ''0123456789ABCDEF'' ! n"

definition quote_byte :: "char \<Rightarrow> string" where
  "quote_byte c =
     (if always_safe c \<or> c = CHR ''/'' then [c]
      else [CHR ''%'', hex_digit (of_char c div 16), hex_digit (of_char c mod 16)])"

definition quote :: "string \<Rightarrow> string" where
  "quote s = concat (map quote_byte s)"

subsection \<open>BaseAPI._build_url\<close>

text \<open>
  The loop \<open>for key, val in kwargs.items()\<close> over the keyword arguments left after
  \<open>tail_slash\<close> is popped, in the dictionary's order, appending to \<open>params\<close>.
\<close>

fun params_loop :: "(string \<times> qval) list \<Rightarrow> string list \<Rightarrow> string list" where
  "params_loop [] params = params"
| "params_loop ((key, val) # kwargs) params =
     params_loop kwargs
       (case val of
          Atom (AStr s) \<Rightarrow>
            if CHR '','' \<in> set s
            then params @ [key @ ''='' @ join '','' (map quote (split_on CHR '','' s))]
            else params @ [key @ ''='' @ quote s]
        | QList vs \<Rightarrow> params @ [key @ ''='' @ join '','' (map (\<lambda>v. quote (py_str v)) vs)]
        | Atom a \<Rightarrow> if truthy_atom a then params @ [key @ ''='' @ py_str a] else params)"

text \<open>
  \<open>_build_url(*args, **kwargs)\<close>. The default of \<open>kwargs.pop('tail_slash', ...)\<close> is an
  argument of the call, so \<open>str(args[-1])[-1]\<close> is evaluated whether or not the flag is
  given: it raises \<open>IndexError\<close> on an empty \<open>args\<close> and on an empty \<open>str(args[-1])\<close>.
\<close>

definition build_url :: "atom list \<Rightarrow> (string \<times> qval) list \<Rightarrow> py_error + string" where
  "build_url args kwargs =
     (let args' = filter (\<lambda>arg. arg \<noteq> ANone) args
      in if args' = [] then Inl (IndexError ''list index out of range'')
         else if py_str (last args') = [] then Inl (IndexError ''string index out of range'')
         else
           let tail_slash =
                 (case map_of kwargs ''tail_slash'' of
                    None \<Rightarrow> Atom (ABool (last (py_str (last args')) = CHR ''/''))
                  | Some v \<Rightarrow> v);
               kwargs' = filter (\<lambda>(key, val). key \<noteq> ''tail_slash'') kwargs;
               url = join ''/'' (map (\<lambda>x. strip_slash (py_str x)) args');
               params = params_loop kwargs' []
           in if length params \<noteq> 0
              then Inr (url @ (if CHR ''?'' \<in> set url then ''&'' else ''/?'') @ join ''&'' params)
              else if CHR ''?'' \<notin> set url \<and> truthy tail_slash then Inr (url @ ''/'')
              else Inr url)"

text \<open>\<open>BaseAPI.url(endpoint, *args, **kwargs)\<close>\<close>

definition url :: "atom \<Rightarrow> atom \<Rightarrow> atom list \<Rightarrow> (string \<times> qval) list \<Rightarrow> py_error + string" where
  "url server endpoint args kwargs = build_url (server # endpoint # args) kwargs"

subsection \<open>The URL of the segments, in the specification's words\<close>

text \<open>
  The non-\<open>None\<close> segments, each stripped of leading and trailing \<open>'/'\<close>, joined by
  \<open>'/'\<close> in argument order.
\<close>

definition joined_segments :: "atom list \<Rightarrow> string" where
  "joined_segments args =
     join ''/'' (map (\<lambda>x. strip_slash (py_str x)) (filter (\<lambda>arg. arg \<noteq> ANone) args))"

definition ends_with_slash :: "string \<Rightarrow> bool" where
  "ends_with_slash s \<longleftrightarrow> s \<noteq> [] \<and> last s = CHR ''/''"

text \<open>
  With no query parameters and no explicit flag: a trailing \<open>'/'\<close> is appended exactly
  when the last non-\<open>None\<close> positional argument originally ended in \<open>'/'\<close>.
\<close>

definition spec_segments_url :: "atom list \<Rightarrow> string" where
  "spec_segments_url args =
     (if ends_with_slash (py_str (last (filter (\<lambda>arg. arg \<noteq> ANone) args)))
      then joined_segments args @ ''/''
      else joined_segments args)"

subsection \<open>The network and the console\<close>

text \<open>
  What \<open>requests.post\<close> and \<open>requests.get\<close> are called with: the URL and the keyword
  arguments \<open>data\<close>, \<open>files\<close> and \<open>json\<close> that the client uses, and the headers. A file
  part is kept as the path it was opened from.
\<close>

datatype http_method = GET | POST

datatype header = Authorization_Token json

record request_args =
  r_url :: string
  r_data :: "(string \<times> atom) list"
  r_files :: "string list"
  r_json :: "json option"

record request =
  r_method :: http_method
  r_args :: request_args
  r_headers :: "header list"

text \<open>
  A response: \<open>status_code\<close>, \<open>text\<close>, and what \<open>json()\<close> returns (\<open>None\<close> where it
  raises because the body is not JSON).
\<close>

record response =
  status_code :: int
  text_body :: string
  json_body :: "json option"

text \<open>
  The remote server is a parameter: what a request returns, or the exception it raises
  (\<open>ConnectionError\<close> among them).
\<close>

type_synonym network = "request \<Rightarrow> py_error + response"

text \<open>One \<open>print(...)\<close> call: its arguments, which the console shows separated by spaces.\<close>

datatype printed = PStr string | PPaths "string list"

text \<open>The effects of the client: the requests sent, in order, and the lines printed.\<close>

record world =
  sent :: "request list"
  stdout :: "printed list list"

definition print :: "printed list \<Rightarrow> world \<Rightarrow> world" where
  "print line w = w\<lparr>stdout := stdout w @ [line]\<rparr>"

definition requests_call ::
  "network \<Rightarrow> http_method \<Rightarrow> request_args \<Rightarrow> header list \<Rightarrow> world
    \<Rightarrow> (py_error + response) \<times> world" where
  "requests_call net m args hs w =
     (let req = \<lparr>r_method = m, r_args = args, r_headers = hs\<rparr>
      in (net req, w\<lparr>sent := sent w @ [req]\<rparr>))"

subsection \<open>BaseAPI: login and authenticated requests\<close>

text \<open>
  The endpoints of \<open>remo.endpoints.backend\<close> that the modelled methods use. They are
  constants of another module, so they are parameters here: the login path, and the upload
  path after \<open>.format(dataset_id)\<close>.
\<close>

record backend =
  login :: string
  dataset_upload :: "atom \<Rightarrow> string"

record session =
  server :: atom
  token :: "json option"

text \<open>\<open>dict.get(key)\<close> on a parsed JSON object: \<open>None\<close> for a missing key and for \<open>null\<close>.\<close>

definition json_get :: "json \<Rightarrow> string \<Rightarrow> py_error + json option" where
  "json_get j key =
     (case j of
        JObj kvs \<Rightarrow>
          (case map_of kvs key of
             None \<Rightarrow> Inr None
           | Some JNull \<Rightarrow> Inr None
           | Some v \<Rightarrow> Inr (Some v))
      | _ \<Rightarrow> Inl AttributeError)"

definition login_args :: "string \<Rightarrow> string \<Rightarrow> string \<Rightarrow> request_args" where
  "login_args u email password =
     \<lparr>r_url = u, r_data = [(''password'', AStr password), (''email'', AStr email)],
      r_files = [], r_json = None\<rparr>"

text \<open>\<open>BaseAPI._login\<close>: returns the session (with the token, or unchanged) or raises.\<close>

definition login_session ::
  "backend \<Rightarrow> network \<Rightarrow> session \<Rightarrow> string \<Rightarrow> string \<Rightarrow> world
    \<Rightarrow> (py_error + session) \<times> world" where
  "login_session b net s email password w =
     (case url (server s) (AStr (login b)) [] [] of
        Inl e \<Rightarrow> (Inl e, w)
      | Inr u \<Rightarrow>
          (case requests_call net POST (login_args u email password) [] w of
             (Inl ConnectionError, w1) \<Rightarrow>
               (Inr s, print [PStr ''ERROR: Failed connect to server''] w1)
           | (Inl e, w1) \<Rightarrow> (Inl e, w1)
           | (Inr resp, w1) \<Rightarrow>
               if status_code resp \<noteq> 200
               then (case json_body resp of
                       None \<Rightarrow> (Inl JSONDecodeError, w1)
                     | Some j \<Rightarrow> (Inl (Exception j), w1))
               else (case json_body resp of
                       None \<Rightarrow> (Inl JSONDecodeError, w1)
                     | Some j \<Rightarrow>
                         (case json_get j ''key'' of
                            Inl e \<Rightarrow> (Inl e, w1)
                          | Inr k \<Rightarrow> (Inr (s\<lparr>token := k\<rparr>), w1)))))"

text \<open>\<open>BaseAPI.__init__\<close>\<close>

definition BaseAPI_init ::
  "backend \<Rightarrow> network \<Rightarrow> atom \<Rightarrow> string \<Rightarrow> string \<Rightarrow> world \<Rightarrow> (py_error + session) \<times> world" where
  "BaseAPI_init b net srv email password w =
     login_session b net \<lparr>server = srv, token = None\<rparr> email password w"

definition is_authenticated :: "session \<Rightarrow> bool" where
  "is_authenticated s \<longleftrightarrow> token s \<noteq> None"

definition auth_header :: "session \<Rightarrow> py_error + header list" where
  "auth_header s =
     (if \<not> is_authenticated s then Inl (Exception (JStr ''Not authenticated''))
      else Inr [Authorization_Token (the (token s))])"

text \<open>
  \<open>BaseAPI.post\<close> and \<open>BaseAPI.get\<close>: the headers are an argument of the call to
  \<open>requests\<close>, so \<open>_auth_header\<close> runs, and may raise, before the request is made.
\<close>

definition post :: "network \<Rightarrow> session \<Rightarrow> request_args \<Rightarrow> world \<Rightarrow> (py_error + response) \<times> world" where
  "post net s args w =
     (case auth_header s of
        Inl e \<Rightarrow> (Inl e, w)
      | Inr hs \<Rightarrow> requests_call net POST args hs w)"

definition get :: "network \<Rightarrow> session \<Rightarrow> request_args \<Rightarrow> world \<Rightarrow> (py_error + response) \<times> world" where
  "get net s args w =
     (case auth_header s of
        Inl e \<Rightarrow> (Inl e, w)
      | Inr hs \<Rightarrow> requests_call net GET args hs w)"

subsection \<open>Double-precision arithmetic of the percentage\<close>

text \<open>
  \<open>int(self.current_count / self.total_count * 100)\<close> divides two integers into a
  \<open>float\<close>, multiplies the float by \<open>100\<close> and truncates. A finite double is kept as a
  pair \<open>(m, e)\<close> of a non-negative mantissa and an exponent, standing for \<open>m * 2 ^ e\<close>;
  signs are handled by the callers, since rounding to nearest and truncation are
  symmetric.
\<close>

text \<open>\<open>int.bit_length\<close>\<close>

fun bit_length :: "nat \<Rightarrow> nat" where
  "bit_length n = (if n = 0 then 0 else Suc (bit_length (n div 2)))"

declare bit_length.simps [simp del]

text \<open>\<open>q * 2 ^ k \<le> p\<close> for an integer \<open>k\<close> of either sign.\<close>

definition scaled_le :: "nat \<Rightarrow> int \<Rightarrow> nat \<Rightarrow> bool" where
  "scaled_le q k p \<longleftrightarrow> (if k \<ge> 0 then q * 2 ^ nat k \<le> p else q \<le> p * 2 ^ nat (- k))"

text \<open>The exponent \<open>E\<close> with \<open>2 ^ E \<le> p / q < 2 ^ (E + 1)\<close>, for positive \<open>p\<close> and \<open>q\<close>.\<close>

definition floor_log2 :: "nat \<Rightarrow> nat \<Rightarrow> int" where
  "floor_log2 p q =
     (let k = int (bit_length p) - int (bit_length q)
      in if scaled_le q k p then k else k - 1)"

text \<open>The integer nearest to \<open>num / den\<close>, ties to the even one.\<close>

definition nearest_even :: "nat \<Rightarrow> nat \<Rightarrow> nat" where
  "nearest_even num den =
     (let d = num div den; r = num mod den
      in if 2 * r < den then d
         else if 2 * r > den then d + 1
         else if even d then d else d + 1)"

text \<open>
  The double nearest to \<open>p / q\<close> (round to nearest, ties to even; 53 bits of mantissa,
  subnormal below \<open>2 ^ -1022\<close>), or \<open>None\<close> when the rounded value is beyond the largest
  double.
\<close>

definition round_double :: "nat \<Rightarrow> nat \<Rightarrow> (nat \<times> int) option" where
  "round_double p q =
     (if p = 0 then Some (0, 0)
      else
        let e = max (floor_log2 p q - 52) (- 1074);
            m = nearest_even (p * 2 ^ nat (- e)) (q * 2 ^ nat e)
        in if e > 971 \<or> (e = 971 \<and> m \<ge> 2 ^ 53) then None else Some (m, e))"

text \<open>\<open>int(x)\<close> on the magnitude of a finite double: truncation.\<close>

definition trunc_double :: "nat \<times> int \<Rightarrow> nat" where
  "trunc_double x = (case x of (m, e) \<Rightarrow> (m * 2 ^ nat e) div 2 ^ nat (- e))"

text \<open>
  The percentage of \<open>progress()\<close>. The division of integers is correctly rounded and
  raises \<open>ZeroDivisionError\<close> or, when the quotient is too large for a float,
  \<open>OverflowError\<close>; the product overflows to infinity, which \<open>int()\<close> refuses with
  \<open>OverflowError\<close>.
\<close>

definition percentage :: "int \<Rightarrow> int \<Rightarrow> py_error + int" where
  "percentage cur tot =
     (if tot = 0 then Inl ZeroDivisionError
      else
        (case round_double (nat \<bar>cur\<bar>) (nat \<bar>tot\<bar>) of
           None \<Rightarrow> Inl OverflowError
         | Some (m, e) \<Rightarrow>
             (case round_double (m * 100 * 2 ^ nat e) (2 ^ nat (- e)) of
                None \<Rightarrow> Inl OverflowError
              | Some y \<Rightarrow> Inr (sgn cur * sgn tot * int (trunc_double y)))))"

text \<open>The percentage in the specification's words: the floor of the exact value.\<close>

definition spec_percentage :: "int \<Rightarrow> int \<Rightarrow> int" where
  "spec_percentage cur tot = (cur * 100) div tot"

subsection \<open>UploadStatus\<close>

text \<open>
  \<open>start\<close> is the reading of the clock at construction, in seconds. Inside the report
  branch of \<open>progress()\<close>, the elapsed time, the speed, the ETA and the formatted line
  are computed from the clock in floating point and may raise (for one, the ETA divides by
  a speed of zero when nothing is counted yet): this part is the parameter \<open>render\<close>, from
  the start, the percentage and the two counts to the line or the exception.
\<close>

record UploadStatus =
  total_count :: int
  current_count :: int
  start :: nat
  reported_progress :: int

type_synonym renderer = "nat \<Rightarrow> int \<Rightarrow> int \<Rightarrow> int \<Rightarrow> py_error + string"

definition UploadStatus_init :: "nat \<Rightarrow> int \<Rightarrow> UploadStatus" where
  "UploadStatus_init now tot =
     \<lparr>total_count = tot, current_count = 0, start = now, reported_progress = 0\<rparr>"

definition update :: "UploadStatus \<Rightarrow> int \<Rightarrow> UploadStatus" where
  "update s count = s\<lparr>current_count := current_count s + count\<rparr>"

definition progress ::
  "renderer \<Rightarrow> UploadStatus \<Rightarrow> world \<Rightarrow> (py_error + UploadStatus) \<times> world" where
  "progress render s w =
     (case percentage (current_count s) (total_count s) of
        Inl e \<Rightarrow> (Inl e, w)
      | Inr pct \<Rightarrow>
          if pct > reported_progress s
          then (case render (start s) pct (current_count s) (total_count s) of
                  Inl e \<Rightarrow> (Inl e, w)
                | Inr line \<Rightarrow> (Inr (s\<lparr>reported_progress := pct\<rparr>), print [PStr line] w))
          else (Inr (s\<lparr>reported_progress := pct\<rparr>), w))"

subsection \<open>API.upload_files and API.bulk_upload_files\<close>

text \<open>
  What the client depends on besides the server: the endpoints, whether a path can be
  opened for reading, \<open>os.path.getsize\<close>, the renderer of progress reports, the clock
  at the creation of the progress tracker, and \<open>FileResolver(...).resolve()\<close> of the
  module \<open>remo.utils\<close>, which may raise.
\<close>

record env =
  env_backend :: backend
  env_net :: network
  env_readable :: "string \<Rightarrow> bool"
  env_getsize :: "string \<Rightarrow> nat option"
  env_render :: renderer
  env_now :: nat
  env_resolve :: "string list \<Rightarrow> bool \<Rightarrow> py_error + string list"

text \<open>
  What a method hands back to its caller: a parsed JSON document, or a response object
  as \<open>requests\<close> returned it.
\<close>

datatype result = JsonBody json | ResponseObject response

text \<open>\<open>r.json()\<close> as a result\<close>

definition json_result :: "response \<Rightarrow> py_error + result" where
  "json_result r = (case json_body r of None \<Rightarrow> Inl JSONDecodeError | Some j \<Rightarrow> Inr (JsonBody j))"

text \<open>
  The form fields of an upload: \<open>annotation_task\<close> when it is truthy, and one field
  \<open>class_encoding_<key>\<close> for each entry of \<open>class_encoding\<close> when that is a dictionary
  (\<open>None\<close> here when it is not).
\<close>

definition upload_data :: "atom \<Rightarrow> (string \<times> atom) list option \<Rightarrow> (string \<times> atom) list" where
  "upload_data annotation_task class_encoding =
     (if truthy_atom annotation_task then [(''annotation_task'', annotation_task)] else [])
     @ (case class_encoding of
          None \<Rightarrow> []
        | Some ce \<Rightarrow> map (\<lambda>(key, val). (''class_encoding_'' @ key, val)) ce)"

definition upload_url :: "env \<Rightarrow> session \<Rightarrow> atom \<Rightarrow> atom \<Rightarrow> atom \<Rightarrow> py_error + string" where
  "upload_url ev s dataset_id folder_id annotation_set_id =
     url (server s) (AStr (dataset_upload (env_backend ev) dataset_id)) []
       [(''folder_id'', Atom folder_id), (''annotation_set_id'', Atom annotation_set_id)]"

definition upload_args :: "string \<Rightarrow> string list \<Rightarrow> (string \<times> atom) list \<Rightarrow> request_args" where
  "upload_args u files data = \<lparr>r_url = u, r_data = data, r_files = files, r_json = None\<rparr>"

text \<open>The request that \<open>self.post(url, files=files, data=data)\<close> sends.\<close>

definition upload_request ::
  "session \<Rightarrow> string \<Rightarrow> string list \<Rightarrow> (string \<times> atom) list \<Rightarrow> request" where
  "upload_request s u files data =
     \<lparr>r_method = POST, r_args = upload_args u files data,
      r_headers = [Authorization_Token (the (token s))]\<rparr>"

text \<open>
  \<open>upload_files\<close>. The tracker is shared with the caller, so the function returns it
  with its result: updated when the request returned a response, as it was otherwise.
  Opening a file that cannot be read raises before anything is sent; \<open>status=None\<close>, the
  default, raises at \<open>status.update\<close>.
\<close>

definition upload_files ::
  "env \<Rightarrow> session \<Rightarrow> atom \<Rightarrow> string list \<Rightarrow> atom \<Rightarrow> atom \<Rightarrow> UploadStatus option \<Rightarrow> atom
    \<Rightarrow> (string \<times> atom) list option \<Rightarrow> world
    \<Rightarrow> ((py_error + result) \<times> UploadStatus option) \<times> world" where
  "upload_files ev s dataset_id files_to_upload annotation_task folder_id status
       annotation_set_id class_encoding w =
     (if (\<exists>path \<in> set files_to_upload. \<not> env_readable ev path) then ((Inl OSError, status), w)
      else
        (let files = files_to_upload;
             data = upload_data annotation_task class_encoding
         in (case upload_url ev s dataset_id folder_id annotation_set_id of
               Inl e \<Rightarrow> ((Inl e, status), w)
             | Inr u \<Rightarrow>
                 (case post (env_net ev) s (upload_args u files data) w of
                    (Inl e, w1) \<Rightarrow> ((Inl e, status), w1)
                  | (Inr r, w1) \<Rightarrow>
                      (let w2 = (if status_code r \<noteq> 200
                                 then print [PStr ''Possible Error - Response:'',
                                             PStr (text_body r), PStr ''files:'',
                                             PPaths files_to_upload] w1
                                 else w1)
                       in (case status of
                             None \<Rightarrow> ((Inl AttributeError, None), w2)
                           | Some st \<Rightarrow>
                               (let st1 = update st (int (length files))
                                in (case progress (env_render ev) st1 w2 of
                                      (Inl e, w3) \<Rightarrow> ((Inl e, Some st1), w3)
                                    | (Inr st2, w3) \<Rightarrow> ((json_result r, Some st2), w3)))))))))"

text \<open>
  The pool of \<open>bulk_upload_files\<close> has one worker, which takes the batches in the order
  \<open>map\<close> submitted them, one after the other; an exception ends the batch that raised it
  and is kept as that batch's outcome, and the worker goes on with the next batch; leaving
  the \<open>with\<close> block waits for all of them. So the batches run as this loop does.
\<close>

fun upload_all ::
  "env \<Rightarrow> session \<Rightarrow> atom \<Rightarrow> atom \<Rightarrow> atom \<Rightarrow> atom \<Rightarrow> (string \<times> atom) list option
    \<Rightarrow> string list list \<Rightarrow> UploadStatus option \<Rightarrow> world
    \<Rightarrow> ((py_error + result) list \<times> UploadStatus option) \<times> world" where
  "upload_all ev s dataset_id annotation_task folder_id annotation_set_id class_encoding
       [] status w = (([], status), w)"
| "upload_all ev s dataset_id annotation_task folder_id annotation_set_id class_encoding
       (bulk # groups) status w =
     (case upload_files ev s dataset_id bulk annotation_task folder_id status
             annotation_set_id class_encoding w of
        ((r, status1), w1) \<Rightarrow>
          (case upload_all ev s dataset_id annotation_task folder_id annotation_set_id
                  class_encoding groups status1 w1 of
             ((rs, status2), w2) \<Rightarrow> ((r # rs, status2), w2)))"




subsection \<open>An example server\<close>

text \<open>
  A server that answers the upload of the batch \<open>['a']\<close> with status 500 and a JSON
  body, the upload of the batch \<open>['b']\<close> with status 502 and a body that is not JSON, and
  every other request with status 200 and a JSON body; every file is readable and has
  8 MiB, so that every file is a batch; an authenticated session with it.
\<close>

definition example_failure :: response where
  "example_failure =
     \<lparr>status_code = 500, text_body = ''{}'', json_body = Some (JObj [])\<rparr>"

definition example_bad_gateway :: response where
  "example_bad_gateway =
     \<lparr>status_code = 502, text_body = ''Bad Gateway'', json_body = None\<rparr>"

definition example_success :: response where
  "example_success =
     \<lparr>status_code = 200, text_body = ''[]'', json_body = Some (JArr [])\<rparr>"

definition example_env :: env where
  "example_env =
     \<lparr>env_backend = \<lparr>login = ''login/'', dataset_upload = (\<lambda>dataset_id. ''upload'')\<rparr>,
      env_net = (\<lambda>req. Inr (if r_files (r_args req) = [''a''] then example_failure
                             else if r_files (r_args req) = [''b''] then example_bad_gateway
                             else example_success)),
      env_readable = (\<lambda>path. True),
      env_getsize = (\<lambda>path. Some (8 * 1024 * 1024)),
      env_render = (\<lambda>t0 pct cur tot. Inr ''report''),
      env_now = 0,
      env_resolve = (\<lambda>files filter_flag. Inr files)\<rparr>"

definition example_session :: session where
  "example_session = \<lparr>server = AStr ''http://s'', token = Some (JStr ''t0k'')\<rparr>"

section \<open>Batching\<close>

lemma batch_bytes_Nil: "batch_bytes getsize [] = 0"
  by (simp add: batch_bytes_def)

lemma batch_bytes_snoc:
  "batch_bytes getsize (bulk @ [p]) = batch_bytes getsize bulk + the (getsize p)"
  by (simp add: batch_bytes_def)

lemma batch_bytes_butlast: "batch_bytes getsize (butlast g) \<le> batch_bytes getsize g"
proof (cases g rule: rev_cases)
  case Nil
  then show ?thesis by simp
next
  case (snoc ys y)
  then show ?thesis by (simp add: batch_bytes_snoc)
qed

lemma split_loop_inv:
  assumes "\<forall>p\<in>set files. getsize p \<noteq> None"
    and "total_size = batch_bytes getsize bulk"
    and "total_size < bulk_size"
  shows "\<exists>new bulk'.
           split_loop getsize files groups bulk total_size
             = Inr (groups @ new, bulk', batch_bytes getsize bulk')
         \<and> concat new @ bulk' = bulk @ files
         \<and> (\<forall>g\<in>set new. closed_batch getsize g)
         \<and> batch_bytes getsize bulk' < bulk_size"
  using assms
proof (induction files arbitrary: groups bulk total_size)
  case Nil
  have "split_loop getsize [] groups bulk total_size
          = Inr (groups @ [], bulk, batch_bytes getsize bulk)"
    using Nil.prems by simp
  moreover have "concat [] @ bulk = bulk @ []" by simp
  ultimately show ?case using Nil.prems by fastforce
next
  case (Cons path files)
  from Cons.prems obtain sz where sz: "getsize path = Some sz" by auto
  have rest: "\<forall>p\<in>set files. getsize p \<noteq> None" using Cons.prems by simp
  let ?bulk = "bulk @ [path]"
  have bytes: "batch_bytes getsize ?bulk = total_size + sz"
    using Cons.prems sz by (simp add: batch_bytes_snoc)
  show ?case
  proof (cases "total_size + sz \<ge> bulk_size")
    case True
    have z: "(0::nat) = batch_bytes getsize []" "(0::nat) < bulk_size"
      by (simp_all add: batch_bytes_Nil bulk_size_def)
    from Cons.IH [OF rest z, of "groups @ [?bulk]"]
    obtain new bulk' where
      run: "split_loop getsize files (groups @ [?bulk]) [] 0
              = Inr ((groups @ [?bulk]) @ new, bulk', batch_bytes getsize bulk')"
      and cat: "concat new @ bulk' = [] @ files"
      and cl: "\<forall>g\<in>set new. closed_batch getsize g"
      and lt: "batch_bytes getsize bulk' < bulk_size"
      by blast
    have closed: "closed_batch getsize ?bulk"
      using True bytes Cons.prems by (simp add: closed_batch_def)
    have "split_loop getsize (path # files) groups bulk total_size
            = Inr (groups @ (?bulk # new), bulk', batch_bytes getsize bulk')"
      using run sz True by simp
    moreover have "concat (?bulk # new) @ bulk' = bulk @ path # files"
      using cat by simp
    moreover have "\<forall>g\<in>set (?bulk # new). closed_batch getsize g"
      using cl closed by simp
    ultimately show ?thesis using lt by blast
  next
    case False
    then have small: "total_size + sz < bulk_size" by simp
    from Cons.IH [OF rest bytes [symmetric] small, of groups]
    obtain new bulk' where
      run: "split_loop getsize files groups ?bulk (total_size + sz)
              = Inr (groups @ new, bulk', batch_bytes getsize bulk')"
      and cat: "concat new @ bulk' = ?bulk @ files"
      and cl: "\<forall>g\<in>set new. closed_batch getsize g"
      and lt: "batch_bytes getsize bulk' < bulk_size"
      by blast
    have "split_loop getsize (path # files) groups bulk total_size
            = Inr (groups @ new, bulk', batch_bytes getsize bulk')"
      using run sz False by simp
    moreover have "concat new @ bulk' = bulk @ path # files"
      using cat by simp
    ultimately show ?thesis using cl lt by blast
  qed
qed

lemma closed_batch_oversized_head:
  assumes "closed_batch getsize g" and "the (getsize (hd g)) \<ge> bulk_size"
  shows "length g = 1"
proof (rule ccontr)
  assume "length g \<noteq> 1"
  with assms(1) obtain x y ys where g: "g = x # y # ys"
    by (cases g; cases "tl g") (auto simp: closed_batch_def)
  have "batch_bytes getsize (butlast g) \<ge> the (getsize x)"
    using g by (simp add: batch_bytes_def)
  with assms g show False by (simp add: closed_batch_def)
qed

lemma open_batch_oversized_head:
  assumes "batch_bytes getsize g < bulk_size" and "g \<noteq> []"
  shows "the (getsize (hd g)) < bulk_size"
  using assms by (cases g) (auto simp: batch_bytes_def)


lemma batch_bytes_member: "p \<in> set g \<Longrightarrow> the (getsize p) \<le> batch_bytes getsize g"
  by (induction g) (auto simp: batch_bytes_def)

text \<open>
  C1, as the specification states it, fails in its parenthesis: a file larger than the
  bulk size that arrives in a batch already begun closes that batch and shares it with
  the files before it. Here \<open>big\<close> has 9 MiB, the other files 1 MiB.
\<close>

theorem split_files_oversized_shares_batch:
  "split_files_by_size (\<lambda>p. Some (if p = ''big'' then 9 * 1024 * 1024 else 1024 * 1024))
     [''one'', ''big'', ''one'']
   = Inr [[''one'', ''big''], [''one'']]
   \<and> bulk_size < 9 * 1024 * 1024"
  by (simp add: split_files_by_size_def bulk_size_def)

text \<open>
  C1, amended. When every file has a size, \<open>split_files_by_size\<close> returns batches whose
  concatenation is the input (each file in exactly one batch, in input order); no batch
  is empty; every batch but the last has reached the 8 MiB bulk size; no batch had
  reached it before its last file was appended (it was closed as soon as it did). So a
  file of at least the bulk size is the last file of its batch, and it is alone in the
  batch when it starts it. Five files of 2 MiB each give the batches of files 1-4 and of
  file 5.
\<close>

theorem split_files_by_size_batches:
  "((\<forall>p\<in>set files. getsize p \<noteq> None) \<longrightarrow>
      (\<exists>groups. split_files_by_size getsize files = Inr groups
         \<and> concat groups = files
         \<and> [] \<notin> set groups
         \<and> (\<forall>g\<in>set (butlast groups). batch_bytes getsize g \<ge> bulk_size)
         \<and> (\<forall>g\<in>set groups. batch_bytes getsize (butlast g) < bulk_size)
         \<and> (\<forall>g\<in>set groups. \<forall>p\<in>set (butlast g). the (getsize p) < bulk_size)
         \<and> (\<forall>g\<in>set groups. the (getsize (hd g)) \<ge> bulk_size \<longrightarrow> length g = 1)))
   \<and> split_files_by_size (\<lambda>p. Some (2 * 1024 * 1024))
        [''f1'', ''f2'', ''f3'', ''f4'', ''f5'']
      = Inr [[''f1'', ''f2'', ''f3'', ''f4''], [''f5'']]"
proof (intro conjI impI)
  assume sizes: "\<forall>p\<in>set files. getsize p \<noteq> None"
  have z: "(0::nat) = batch_bytes getsize []" "(0::nat) < bulk_size"
    by (simp_all add: batch_bytes_Nil bulk_size_def)
  from split_loop_inv [OF sizes z, of "[]"]
  obtain new bulk' where
    run: "split_loop getsize files [] [] 0 = Inr (new, bulk', batch_bytes getsize bulk')"
    and cat: "concat new @ bulk' = files"
    and cl: "\<forall>g\<in>set new. closed_batch getsize g"
    and lt: "batch_bytes getsize bulk' < bulk_size"
    by auto
  let ?groups = "if length bulk' \<noteq> 0 then new @ [bulk'] else new"
  have res: "split_files_by_size getsize files = Inr ?groups"
    using run by (simp add: split_files_by_size_def)
  have c1: "concat ?groups = files" using cat by auto
  have c2: "[] \<notin> set ?groups" using cl by (auto simp: closed_batch_def)
  have c3: "\<forall>g\<in>set (butlast ?groups). batch_bytes getsize g \<ge> bulk_size"
  proof
    fix g assume "g \<in> set (butlast ?groups)"
    then have "g \<in> set new" by (auto split: if_splits dest: in_set_butlastD)
    with cl show "batch_bytes getsize g \<ge> bulk_size" by (simp add: closed_batch_def)
  qed
  have c4: "\<forall>g\<in>set ?groups. batch_bytes getsize (butlast g) < bulk_size"
  proof
    fix g assume "g \<in> set ?groups"
    then consider "g \<in> set new" | "g = bulk'" by (auto split: if_splits)
    then show "batch_bytes getsize (butlast g) < bulk_size"
    proof cases
      case 1
      with cl show ?thesis by (simp add: closed_batch_def)
    next
      case 2
      with lt batch_bytes_butlast [of getsize bulk'] show ?thesis by simp
    qed
  qed
  have c5: "\<forall>g\<in>set ?groups. \<forall>p\<in>set (butlast g). the (getsize p) < bulk_size"
  proof (intro ballI)
    fix g p assume "g \<in> set ?groups" and "p \<in> set (butlast g)"
    with c4 batch_bytes_member [of p "butlast g" getsize]
    show "the (getsize p) < bulk_size" by fastforce
  qed
  have c6: "\<forall>g\<in>set ?groups. the (getsize (hd g)) \<ge> bulk_size \<longrightarrow> length g = 1"
  proof (intro ballI impI)
    fix g assume g: "g \<in> set ?groups" and big: "the (getsize (hd g)) \<ge> bulk_size"
    from g consider "g \<in> set new" | "g = bulk'" "bulk' \<noteq> []" by (auto split: if_splits)
    then show "length g = 1"
    proof cases
      case 1
      with cl have "closed_batch getsize g" by blast
      from closed_batch_oversized_head [OF this big] show ?thesis .
    next
      case 2
      with lt open_batch_oversized_head [of getsize bulk'] big show ?thesis by simp
    qed
  qed
  show "\<exists>groups. split_files_by_size getsize files = Inr groups
         \<and> concat groups = files
         \<and> [] \<notin> set groups
         \<and> (\<forall>g\<in>set (butlast groups). batch_bytes getsize g \<ge> bulk_size)
         \<and> (\<forall>g\<in>set groups. batch_bytes getsize (butlast g) < bulk_size)
         \<and> (\<forall>g\<in>set groups. \<forall>p\<in>set (butlast g). the (getsize p) < bulk_size)
         \<and> (\<forall>g\<in>set groups. the (getsize (hd g)) \<ge> bulk_size \<longrightarrow> length g = 1)"
    using res c1 c2 c3 c4 c5 c6 by blast
next
  show "split_files_by_size (\<lambda>p. Some (2 * 1024 * 1024))
          [''f1'', ''f2'', ''f3'', ''f4'', ''f5'']
        = Inr [[''f1'', ''f2'', ''f3'', ''f4''], [''f5'']]"
    by (simp add: split_files_by_size_def bulk_size_def)
qed

theorem split_files_by_size_batches_witness:
  "\<exists>groups.
      split_files_by_size (\<lambda>p. Some (if p = ''f3'' then 1048576 else 4194304))
        [''f1'', ''f2'', ''f3''] = Inr groups
    \<and> concat groups = [''f1'', ''f2'', ''f3'']
    \<and> [] \<notin> set groups
    \<and> (\<forall>g\<in>set (butlast groups).
          batch_bytes (\<lambda>p. Some (if p = ''f3'' then 1048576 else 4194304)) g \<ge> bulk_size)"
proof -
  have sizes: "\<forall>p\<in>set [''f1'', ''f2'', ''f3''].
      (\<lambda>p. Some (if p = ''f3'' then 1048576 else 4194304 :: nat)) p \<noteq> None"
    by simp
  from split_files_by_size_batches
    [of "[''f1'', ''f2'', ''f3'']" "\<lambda>p. Some (if p = ''f3'' then 1048576 else 4194304)"]
    sizes
  show ?thesis by blast
qed

section \<open>URL builder\<close>

lemma params_loop_append:
  "params_loop (kw1 @ kw2) params = params_loop kw2 (params_loop kw1 params)"
  by (induction kw1 arbitrary: params) auto

lemma params_loop_acc: "params_loop kw params = params @ params_loop kw []"
proof (induction kw arbitrary: params)
  case Nil
  show ?case by simp
next
  case (Cons kv kw)
  obtain key val where kv: "kv = (key, val)" by (cases kv)
  show ?case
    unfolding kv params_loop.simps
    by (subst Cons.IH, subst (2) Cons.IH) (simp split: qval.split atom.split)
qed

lemma build_url_cong:
  assumes "map_of kw ''tail_slash'' = map_of kw' ''tail_slash''"
    and "params_loop (filter (\<lambda>(key, val). key \<noteq> ''tail_slash'') kw) []
         = params_loop (filter (\<lambda>(key, val). key \<noteq> ''tail_slash'') kw') []"
  shows "build_url args kw = build_url args kw'"
  unfolding build_url_def Let_def assms by (rule refl)

lemma map_of_middle:
  "key \<noteq> k \<Longrightarrow> map_of (kw1 @ (key, v) # kw2) k = map_of (kw1 @ kw2) k"
  by (induction kw1) auto

lemma params_loop_middle:
  assumes "params_loop [(key, v)] [] = params_loop mid []"
  shows "params_loop (kw1 @ (key, v) # kw2) [] = params_loop (kw1 @ mid @ kw2) []"
proof -
  have "params_loop (kw1 @ (key, v) # kw2) []
          = params_loop kw2 (params_loop [(key, v)] (params_loop kw1 []))"
    using params_loop_append [of kw1 "[(key, v)] @ kw2" "[]"]
      params_loop_append [of "[(key, v)]" kw2] by simp
  also have "params_loop [(key, v)] (params_loop kw1 [])
          = params_loop kw1 [] @ params_loop [(key, v)] []"
    by (rule params_loop_acc)
  also have "\<dots> = params_loop kw1 [] @ params_loop mid []"
    using assms by simp
  also have "\<dots> = params_loop mid (params_loop kw1 [])"
    by (rule params_loop_acc [symmetric])
  finally show ?thesis
    by (simp add: params_loop_append)
qed

lemma split_on_no_sep: "c \<notin> set x \<Longrightarrow> split_on c x = [x]"
  by (induction x) auto

lemma split_on_prefix:
  "c \<notin> set x \<Longrightarrow> split_on c (x @ c # rest) = x # split_on c rest"
  by (induction x) auto

lemma split_on_join:
  assumes "xs \<noteq> []" and "\<forall>x\<in>set xs. c \<notin> set x"
  shows "split_on c (join [c] xs) = xs"
  using assms
proof (induction "[c]" xs rule: join.induct)
  case 1
  then show ?case by simp
next
  case (2 x)
  then show ?case by (simp add: split_on_no_sep)
next
  case (3 x y ys)
  then show ?case by (simp add: split_on_prefix)
qed

lemma sep_in_join:
  assumes "\<forall>x\<in>set xs. c \<notin> set x"
  shows "c \<in> set (join [c] xs) \<longleftrightarrow> 2 \<le> length xs"
  using assms by (induction "[c]" xs rule: join.induct) auto

lemma quote_Nil: "quote [] = []"
  by (simp add: quote_def)

lemma falsy_param_skipped:
  assumes "v = ANone \<or> v = AInt 0 \<or> v = ABool False"
  shows "params_loop [(key, Atom v)] [] = params_loop [] []"
  using assms by auto

lemma kwargs_filter_middle:
  assumes "key \<noteq> ''tail_slash''"
  shows "filter (\<lambda>(key, val). key \<noteq> ''tail_slash'') (kw1 @ (key, v) # kw2)
         = filter (\<lambda>(key, val). key \<noteq> ''tail_slash'') kw1
           @ (key, v) # filter (\<lambda>(key, val). key \<noteq> ''tail_slash'') kw2"
  using assms by simp

lemma build_url_replace_param:
  assumes "key \<noteq> ''tail_slash''"
    and "params_loop [(key, v)] [] = params_loop [(key, w)] []"
  shows "build_url args (kw1 @ (key, v) # kw2) = build_url args (kw1 @ (key, w) # kw2)"
proof (rule build_url_cong)
  show "map_of (kw1 @ (key, v) # kw2) ''tail_slash'' = map_of (kw1 @ (key, w) # kw2) ''tail_slash''"
    by (simp only: map_of_middle [OF assms(1)])
  show "params_loop (filter (\<lambda>(key, val). key \<noteq> ''tail_slash'') (kw1 @ (key, v) # kw2)) []
      = params_loop (filter (\<lambda>(key, val). key \<noteq> ''tail_slash'') (kw1 @ (key, w) # kw2)) []"
    unfolding kwargs_filter_middle [OF assms(1)]
    using params_loop_middle [OF assms(2)] by simp
qed

lemma build_url_drop_param:
  assumes "key \<noteq> ''tail_slash''"
    and "params_loop [(key, v)] [] = params_loop [] []"
  shows "build_url args (kw1 @ (key, v) # kw2) = build_url args (kw1 @ kw2)"
proof (rule build_url_cong)
  show "map_of (kw1 @ (key, v) # kw2) ''tail_slash'' = map_of (kw1 @ kw2) ''tail_slash''"
    by (simp only: map_of_middle [OF assms(1)])
  show "params_loop (filter (\<lambda>(key, val). key \<noteq> ''tail_slash'') (kw1 @ (key, v) # kw2)) []
      = params_loop (filter (\<lambda>(key, val). key \<noteq> ''tail_slash'') (kw1 @ kw2)) []"
    unfolding kwargs_filter_middle [OF assms(1)]
    using params_loop_middle [OF assms(2)] by simp
qed

lemma list_param_as_string:
  assumes "\<forall>v\<in>set vs. CHR '','' \<notin> set (py_str v)"
  shows "params_loop [(key, Atom (AStr (join '','' (map py_str vs))))] []
         = [key @ ''='' @ join '','' (map (\<lambda>v. quote (py_str v)) vs)]"
proof -
  let ?xs = "map py_str vs"
  have nosep: "\<forall>x\<in>set ?xs. CHR '','' \<notin> set x" using assms by simp
  show ?thesis
  proof (cases "2 \<le> length vs")
    case True
    then have ne: "?xs \<noteq> []" by auto
    have "CHR '','' \<in> set (join '','' ?xs)"
      using sep_in_join [OF nosep] True by simp
    moreover have "split_on CHR '','' (join '','' ?xs) = ?xs"
      using split_on_join [OF ne nosep] by simp
    ultimately show ?thesis by (simp add: comp_def)
  next
    case False
    then have none: "CHR '','' \<notin> set (join '','' ?xs)"
      using sep_in_join [OF nosep] by simp
    from False consider "vs = []" | v where "vs = [v]"
      by (cases vs; cases "tl vs") auto
    then show ?thesis
    proof cases
      case 1
      then show ?thesis by (simp add: quote_Nil)
    next
      case 2
      with none show ?thesis by simp
    qed
  qed
qed

text \<open>
  C2, as the specification states it, fails: the empty string is a \<open>str\<close>, so the first
  branch of the loop renders it as \<open>key=\<close>.
\<close>

theorem build_url_empty_string_rendered:
  "build_url [AStr ''http://s''] [(''k'', Atom (AStr ''''))] = Inr ''http://s/?k=''
   \<and> build_url [AStr ''http://s''] [] = Inr ''http://s''
   \<and> \<not> truthy (Atom (AStr ''''))"
  by (simp add: build_url_def strip_slash_def quote_def)

text \<open>
  C2, amended. A query parameter whose value is \<open>None\<close>, \<open>0\<close> or \<open>False\<close> (a falsy value
  that is neither a \<open>str\<close> nor a \<open>list\<close>) is omitted: the URL is the one built without
  that parameter. The empty string is not omitted: the loop appends \<open>key=\<close> for it.
\<close>

theorem build_url_omits_falsy_scalar:
  assumes "key \<noteq> ''tail_slash''"
    and "v = ANone \<or> v = AInt 0 \<or> v = ABool False"
  shows "build_url args (kw1 @ (key, Atom v) # kw2) = build_url args (kw1 @ kw2)
       \<and> params_loop [(key, Atom (AStr []))] params = params @ [key @ ''='']"
  using build_url_drop_param [OF assms(1) falsy_param_skipped [OF assms(2)]]
  by (simp add: quote_Nil)

theorem build_url_omits_falsy_scalar_witness:
  "build_url [AStr ''http://s/'', AStr ''api/images'']
     [(''limit'', Atom (AInt 5)), (''offset'', Atom (AInt 0)), (''folder_id'', Atom ANone)]
   = build_url [AStr ''http://s/'', AStr ''api/images'']
       [(''limit'', Atom (AInt 5)), (''folder_id'', Atom ANone)]"
proof -
  have k: "''offset'' \<noteq> ''tail_slash''" by simp
  have v: "AInt 0 = ANone \<or> AInt 0 = AInt 0 \<or> AInt 0 = ABool False" by simp
  from build_url_omits_falsy_scalar [OF k v, of _ "[(''limit'', Atom (AInt 5))]"
      "[(''folder_id'', Atom ANone)]"]
  show ?thesis by simp
qed

text \<open>
  C8, as the specification states it, fails: when the joined URL contains \<open>'?'\<close>, no
  trailing \<open>'/'\<close> is appended although the last segment ended in one.
\<close>

theorem build_url_no_slash_after_query:
  "build_url [AStr ''http://s'', AStr ''search?q=1/''] [] = Inr ''http://s/search?q=1''
   \<and> spec_segments_url [AStr ''http://s'', AStr ''search?q=1/''] = ''http://s/search?q=1/''"
  by (simp add: build_url_def spec_segments_url_def joined_segments_def ends_with_slash_def
      strip_slash_def)

text \<open>
  C8, amended. With at least one non-\<open>None\<close> segment, the last of which has a non-empty
  string form, and no query parameters: the result is the non-\<open>None\<close> segments, each
  stripped of leading and trailing \<open>'/'\<close>, joined by \<open>'/'\<close> in argument order; with no
  explicit flag a trailing \<open>'/'\<close> is appended exactly when the last non-\<open>None\<close> argument
  ended in \<open>'/'\<close> and the joined URL contains no \<open>'?'\<close>; with an explicit flag it is
  appended exactly when the flag is true and the joined URL contains no \<open>'?'\<close>.
\<close>

theorem build_url_segments:
  assumes "filter (\<lambda>arg. arg \<noteq> ANone) args \<noteq> []"
    and "py_str (last (filter (\<lambda>arg. arg \<noteq> ANone) args)) \<noteq> []"
  shows "build_url args [] =
           Inr (if CHR ''?'' \<in> set (joined_segments args) then joined_segments args
                else spec_segments_url args)
       \<and> build_url args [(''tail_slash'', flag)] =
           Inr (if CHR ''?'' \<notin> set (joined_segments args) \<and> truthy flag
                then joined_segments args @ ''/'' else joined_segments args)"
  using assms
  by (simp add: build_url_def spec_segments_url_def joined_segments_def ends_with_slash_def)

theorem build_url_segments_witness:
  "build_url [AStr ''http://s/'', ANone, AStr ''/api/v1/datasets/'', AInt 7, ANone] []
     = Inr ''http://s/api/v1/datasets/7''
   \<and> build_url [AStr ''http://s/'', ANone, AStr ''/api/v1/datasets/'', AInt 7, ANone]
       [(''tail_slash'', Atom (ABool True))]
     = Inr ''http://s/api/v1/datasets/7/''"
proof -
  let ?args = "[AStr ''http://s/'', ANone, AStr ''/api/v1/datasets/'', AInt 7, ANone]"
  have ne: "filter (\<lambda>arg. arg \<noteq> ANone) ?args \<noteq> []" by simp
  have str: "py_str (last (filter (\<lambda>arg. arg \<noteq> ANone) ?args)) \<noteq> []"
    by (simp add: str_int_def)
  have j: "joined_segments ?args = ''http://s/api/v1/datasets/7''"
    by (simp add: joined_segments_def strip_slash_def str_int_def digit_char_def)
  have s: "spec_segments_url ?args = ''http://s/api/v1/datasets/7''"
    by (simp add: spec_segments_url_def ends_with_slash_def j str_int_def digit_char_def)
  from build_url_segments [OF ne str, of "Atom (ABool True)"]
  show ?thesis by (simp add: j s)
qed

text \<open>
  C9. A list query value whose elements' string forms contain no comma is rendered as the
  string of these forms joined by commas is: each piece percent-encoded on its own, the
  commas between them left as they are.
\<close>

theorem build_url_list_as_comma_string:
  assumes "key \<noteq> ''tail_slash''"
    and "\<forall>v\<in>set vs. CHR '','' \<notin> set (py_str v)"
  shows "build_url args (kw1 @ (key, QList vs) # kw2)
           = build_url args (kw1 @ (key, Atom (AStr (join '','' (map py_str vs)))) # kw2)
       \<and> params_loop [(key, Atom (AStr (join '','' (map py_str vs))))] []
           = [key @ ''='' @ join '','' (map (\<lambda>v. quote (py_str v)) vs)]"
proof
  have "params_loop [(key, QList vs)] []
          = params_loop [(key, Atom (AStr (join '','' (map py_str vs))))] []"
    using list_param_as_string [OF assms(2)] by simp
  from build_url_replace_param [OF assms(1) this]
  show "build_url args (kw1 @ (key, QList vs) # kw2)
          = build_url args (kw1 @ (key, Atom (AStr (join '','' (map py_str vs)))) # kw2)" .
  show "params_loop [(key, Atom (AStr (join '','' (map py_str vs))))] []
          = [key @ ''='' @ join '','' (map (\<lambda>v. quote (py_str v)) vs)]"
    by (rule list_param_as_string [OF assms(2)])
qed

theorem build_url_list_as_comma_string_witness:
  "build_url [AStr ''http://s'', AStr ''search''] [(''classes'', QList [AStr ''x'', AStr ''y''])]
     = build_url [AStr ''http://s'', AStr ''search''] [(''classes'', Atom (AStr ''x,y''))]
   \<and> params_loop [(''classes'', Atom (AStr ''x,y''))] [] = [''classes=x,y'']"
proof -
  have k: "''classes'' \<noteq> ''tail_slash''" by simp
  have v: "\<forall>v\<in>set [AStr ''x'', AStr ''y'']. CHR '','' \<notin> set (py_str v)" by simp
  have q: "quote ''x'' = ''x''" "quote ''y'' = ''y''"
    by (simp_all add: quote_def quote_byte_def always_safe_def)
  from build_url_list_as_comma_string [OF k v, of _ "[]" "[]"]
  show ?thesis by (simp add: q)
qed

text \<open>
  C10. \<open>_build_url\<close>, and \<open>url\<close> through it, fails with the list's \<open>IndexError\<close> exactly
  when no positional argument is left after the \<open>None\<close> ones are dropped, whatever the
  keyword arguments are (the default of \<open>tail_slash\<close> is computed even when the flag is
  given); with a segment left, \<open>args[-1]\<close> is safe. A URL is returned exactly when a
  segment is left and the string form of the last one is not empty.
\<close>

theorem build_url_needs_segment:
  "(build_url args kwargs = Inl (IndexError ''list index out of range''))
     = (filter (\<lambda>arg. arg \<noteq> ANone) args = [])
   \<and> (url srv endpoint args kwargs = Inl (IndexError ''list index out of range''))
     = (filter (\<lambda>arg. arg \<noteq> ANone) (srv # endpoint # args) = [])
   \<and> (\<exists>u. build_url args kwargs = Inr u)
     = (filter (\<lambda>arg. arg \<noteq> ANone) args \<noteq> []
        \<and> py_str (last (filter (\<lambda>arg. arg \<noteq> ANone) args)) \<noteq> [])"
proof -
  have a: "(build_url xs kw = Inl (IndexError ''list index out of range''))
             = (filter (\<lambda>arg. arg \<noteq> ANone) xs = [])" for xs kw
  proof (cases "filter (\<lambda>arg. arg \<noteq> ANone) xs = []")
    case True
    then show ?thesis by (simp add: build_url_def)
  next
    case False
    then show ?thesis by (simp add: build_url_def Let_def)
  qed
  have b: "(\<exists>u. build_url args kwargs = Inr u)
             = (filter (\<lambda>arg. arg \<noteq> ANone) args \<noteq> []
                \<and> py_str (last (filter (\<lambda>arg. arg \<noteq> ANone) args)) \<noteq> [])"
  proof (cases "filter (\<lambda>arg. arg \<noteq> ANone) args = []")
    case True
    then show ?thesis by (simp add: build_url_def)
  next
    case False
    show ?thesis
    proof (cases "py_str (last (filter (\<lambda>arg. arg \<noteq> ANone) args)) = []")
      case True
      with False show ?thesis by (simp add: build_url_def)
    next
      case nonempty: False
      with False show ?thesis by (simp add: build_url_def Let_def)
    qed
  qed
  show ?thesis
    unfolding url_def using a [of args kwargs] a [of "srv # endpoint # args" kwargs] b
    by blast
qed

theorem build_url_needs_segment_witness:
  "build_url [ANone, ANone] [(''tail_slash'', Atom (ABool True))]
     = Inl (IndexError ''list index out of range'')
   \<and> url ANone ANone [] [] = Inl (IndexError ''list index out of range'')
   \<and> build_url [AStr ''http://s'', ANone] [] \<noteq> Inl (IndexError ''list index out of range'')"
  using build_url_needs_segment [of "[ANone, ANone]" "[(''tail_slash'', Atom (ABool True))]" ANone ANone]
    build_url_needs_segment [of "[]" "[]" ANone ANone]
    build_url_needs_segment [of "[AStr ''http://s'', ANone]" "[]" ANone ANone]
  by simp

section \<open>Session and authentication\<close>

text \<open>
  C4. On a session whose token is absent, \<open>post\<close> and \<open>get\<close> fail with the exception
  \<open>'Not authenticated'\<close> and leave the world as it was: no request is sent. This is the
  state a login that could not connect leaves.
\<close>

theorem unauthenticated_call_fails:
  assumes "token s = None"
  shows "post net s args w = (Inl (Exception (JStr ''Not authenticated'')), w)
       \<and> get net s args w = (Inl (Exception (JStr ''Not authenticated'')), w)"
  using assms by (simp add: post_def get_def auth_header_def is_authenticated_def)

theorem unauthenticated_call_fails_witness:
  "post (\<lambda>req. Inl ConnectionError) \<lparr>server = AStr ''http://s'', token = None\<rparr>
     \<lparr>r_url = ''http://s/api'', r_data = [], r_files = [], r_json = None\<rparr>
     \<lparr>sent = [], stdout = []\<rparr>
   = (Inl (Exception (JStr ''Not authenticated'')), \<lparr>sent = [], stdout = []\<rparr>)"
proof -
  have t: "token \<lparr>server = AStr ''http://s'', token = None\<rparr> = None" by simp
  from unauthenticated_call_fails [OF t] show ?thesis by blast
qed

lemma login_session_sent:
  assumes "url (server s) (AStr (login b)) [] [] = Inr u"
    and "net \<lparr>r_method = POST, r_args = login_args u email password, r_headers = []\<rparr> = res"
  shows "requests_call net POST (login_args u email password) [] w
         = (res, w\<lparr>sent := sent w
               @ [\<lparr>r_method = POST, r_args = login_args u email password, r_headers = []\<rparr>]\<rparr>)"
  using assms by (simp add: requests_call_def)

text \<open>
  C5. Login, when the login URL can be built. If the request raises \<open>ConnectionError\<close>,
  the constructor prints the error and returns the session with no token, raising
  nothing. If the response's status is not 200, it raises \<open>Exception\<close> with the parsed
  body of the response. If the status is 200 and the body is a JSON object, the token of
  the session is the value of its field \<open>key\<close>. In each case exactly the login request
  has been sent.
\<close>

theorem login_outcomes:
  assumes "url srv (AStr (login b)) [] [] = Inr u"
    and "req = \<lparr>r_method = POST, r_args = login_args u email password, r_headers = []\<rparr>"
  shows "(net req = Inl ConnectionError \<longrightarrow>
            BaseAPI_init b net srv email password w
              = (Inr \<lparr>server = srv, token = None\<rparr>,
                 \<lparr>sent = sent w @ [req],
                  stdout = stdout w @ [[PStr ''ERROR: Failed connect to server'']]\<rparr>))
       \<and> (\<forall>resp j. net req = Inr resp \<and> status_code resp \<noteq> 200 \<and> json_body resp = Some j \<longrightarrow>
            BaseAPI_init b net srv email password w
              = (Inl (Exception j), \<lparr>sent = sent w @ [req], stdout = stdout w\<rparr>))
       \<and> (\<forall>resp kvs k. net req = Inr resp \<and> status_code resp = 200
              \<and> json_body resp = Some (JObj kvs) \<and> map_of kvs ''key'' = Some k \<and> k \<noteq> JNull \<longrightarrow>
            BaseAPI_init b net srv email password w
              = (Inr \<lparr>server = srv, token = Some k\<rparr>,
                 \<lparr>sent = sent w @ [req], stdout = stdout w\<rparr>))"
proof -
  have u: "url (server \<lparr>server = srv, token = None\<rparr>) (AStr (login b)) [] [] = Inr u"
    using assms(1) by simp
  have call: "requests_call net POST (login_args u email password) [] w
                = (net req, w\<lparr>sent := sent w @ [req]\<rparr>)"
    using login_session_sent [OF u, of net email password "net req" w] assms(2) by simp
  have w: "w\<lparr>sent := sent w @ [req]\<rparr> = \<lparr>sent = sent w @ [req], stdout = stdout w\<rparr>"
    by simp
  show ?thesis
  proof (intro conjI allI impI)
    assume "net req = Inl ConnectionError"
    then show "BaseAPI_init b net srv email password w
              = (Inr \<lparr>server = srv, token = None\<rparr>,
                 \<lparr>sent = sent w @ [req],
                  stdout = stdout w @ [[PStr ''ERROR: Failed connect to server'']]\<rparr>)"
      using u call by (simp add: BaseAPI_init_def login_session_def print_def)
  next
    fix resp j
    assume "net req = Inr resp \<and> status_code resp \<noteq> 200 \<and> json_body resp = Some j"
    then show "BaseAPI_init b net srv email password w
              = (Inl (Exception j), \<lparr>sent = sent w @ [req], stdout = stdout w\<rparr>)"
      using u call by (simp add: BaseAPI_init_def login_session_def)
  next
    fix resp kvs k
    assume "net req = Inr resp \<and> status_code resp = 200
              \<and> json_body resp = Some (JObj kvs) \<and> map_of kvs ''key'' = Some k \<and> k \<noteq> JNull"
    then show "BaseAPI_init b net srv email password w
              = (Inr \<lparr>server = srv, token = Some k\<rparr>,
                 \<lparr>sent = sent w @ [req], stdout = stdout w\<rparr>)"
      using u call
      by (cases k) (simp_all add: BaseAPI_init_def login_session_def json_get_def)
  qed
qed

theorem login_outcomes_witness:
  \<open>BaseAPI_init \<lparr>login = ''api/login/'', dataset_upload = (\<lambda>d. ''api/upload'')\<rparr>
     (\<lambda>req. Inl ConnectionError) (AStr ''http://s'') ''a@b.c'' ''pw'' \<lparr>sent = [], stdout = []\<rparr>
   = (Inr \<lparr>server = AStr ''http://s'', token = None\<rparr>,
      \<lparr>sent = [\<lparr>r_method = POST,
                r_args = login_args ''http://s/api/login/'' ''a@b.c'' ''pw'', r_headers = []\<rparr>],
       stdout = [[PStr ''ERROR: Failed connect to server'']]\<rparr>)
   \<and> BaseAPI_init \<lparr>login = ''api/login/'', dataset_upload = (\<lambda>d. ''api/upload'')\<rparr>
     (\<lambda>req. Inr \<lparr>status_code = 400, text_body = ''{"detail": "bad"}'',
                 json_body = Some (JObj [(''detail'', JStr ''bad'')])\<rparr>)
     (AStr ''http://s'') ''a@b.c'' ''pw'' \<lparr>sent = [], stdout = []\<rparr>
   = (Inl (Exception (JObj [(''detail'', JStr ''bad'')])),
      \<lparr>sent = [\<lparr>r_method = POST,
                r_args = login_args ''http://s/api/login/'' ''a@b.c'' ''pw'', r_headers = []\<rparr>],
       stdout = []\<rparr>)
   \<and> BaseAPI_init \<lparr>login = ''api/login/'', dataset_upload = (\<lambda>d. ''api/upload'')\<rparr>
     (\<lambda>req. Inr \<lparr>status_code = 200, text_body = ''{"key": "t0k"}'',
                 json_body = Some (JObj [(''key'', JStr ''t0k'')])\<rparr>)
     (AStr ''http://s'') ''a@b.c'' ''pw'' \<lparr>sent = [], stdout = []\<rparr>
   = (Inr \<lparr>server = AStr ''http://s'', token = Some (JStr ''t0k'')\<rparr>,
      \<lparr>sent = [\<lparr>r_method = POST,
                r_args = login_args ''http://s/api/login/'' ''a@b.c'' ''pw'', r_headers = []\<rparr>],
       stdout = []\<rparr>)\<close>
proof -
  let ?b = "\<lparr>login = ''api/login/'', dataset_upload = (\<lambda>d::atom. ''api/upload'')\<rparr>"
  have u: "url (AStr ''http://s'') (AStr (login ?b)) [] [] = Inr ''http://s/api/login/''"
    by (simp add: url_def build_url_def strip_slash_def)
  note inst = login_outcomes [OF u refl, of _ "''a@b.c''" "''pw''" "\<lparr>sent = [], stdout = []\<rparr>"]
  show ?thesis
    using inst [of "\<lambda>req. Inl ConnectionError"]
      inst [of \<open>\<lambda>req. Inr \<lparr>status_code = 400, text_body = ''{"detail": "bad"}'',
                 json_body = Some (JObj [(''detail'', JStr ''bad'')])\<rparr>\<close>]
      inst [of \<open>\<lambda>req. Inr \<lparr>status_code = 200, text_body = ''{"key": "t0k"}'',
                 json_body = Some (JObj [(''key'', JStr ''t0k'')])\<rparr>\<close>]
    by simp
qed

section \<open>The percentage never fails on a partial count\<close>

lemma bit_length_0: "bit_length 0 = 0"
  by (simp add: bit_length.simps)

lemma bit_length_pos: "n \<noteq> 0 \<Longrightarrow> bit_length n = Suc (bit_length (n div 2))"
  by (subst bit_length.simps) simp

lemma less_pow_bit_length: "n < 2 ^ bit_length n"
proof (induction n rule: bit_length.induct)
  case (1 n)
  show ?case
  proof (cases "n = 0")
    case True
    then show ?thesis by (simp add: bit_length_0)
  next
    case False
    with 1 have "n div 2 < 2 ^ bit_length (n div 2)" by simp
    then have "n < 2 * 2 ^ bit_length (n div 2)" by linarith
    moreover have "bit_length n = Suc (bit_length (n div 2))"
      using False by (rule bit_length_pos)
    ultimately show ?thesis by simp
  qed
qed

lemma bit_length_le: "n < 2 ^ k \<Longrightarrow> bit_length n \<le> k"
proof (induction n arbitrary: k rule: bit_length.induct)
  case (1 n)
  show ?case
  proof (cases "n = 0")
    case True
    then show ?thesis by (simp add: bit_length_0)
  next
    case False
    with "1.prems" obtain j where k: "k = Suc j" by (cases k) auto
    with "1.prems" have "n div 2 < 2 ^ j" by simp
    with 1 False have "bit_length (n div 2) \<le> j" by simp
    moreover have "bit_length n = Suc (bit_length (n div 2))"
      using False by (rule bit_length_pos)
    ultimately show ?thesis using k by simp
  qed
qed

lemma bit_length_mono: "p \<le> q \<Longrightarrow> bit_length p \<le> bit_length q"
  using less_pow_bit_length [of q] by (intro bit_length_le) simp

lemma bit_length_pow: "bit_length (2 ^ n) = Suc n"
proof -
  have "bit_length ((2::nat) ^ n) \<le> Suc n" by (rule bit_length_le) simp
  moreover have "\<not> bit_length ((2::nat) ^ n) \<le> n"
  proof
    assume "bit_length ((2::nat) ^ n) \<le> n"
    then have "(2::nat) ^ bit_length (2 ^ n) \<le> 2 ^ n" by simp
    with less_pow_bit_length [of "2 ^ n"] show False by simp
  qed
  ultimately show ?thesis by simp
qed

lemma floor_log2_le: "floor_log2 p q \<le> int (bit_length p) - int (bit_length q)"
  by (simp add: floor_log2_def Let_def)





section \<open>The percentage against the exact floor\<close>

lemma nearest_even_bounds:
  assumes "0 < den"
  shows "2 * (nearest_even num den * den) \<le> 2 * num + den"
    and "2 * num \<le> 2 * (nearest_even num den * den) + den"
proof -
  define d where "d = num div den"
  define r where "r = num mod den"
  have num: "num = d * den + r" by (simp add: d_def r_def)
  have r: "r < den" using assms by (simp add: r_def)
  define v where "v = nearest_even num den"
  have v: "v = (if 2 * r < den then d
              else if 2 * r > den then d + 1 else if even d then d else d + 1)"
    by (simp add: v_def nearest_even_def Let_def d_def r_def)
  consider (lo) "2 * r < den" "v = d" | (hi) "2 * r > den" "v = d + 1"
    | (tie) "2 * r = den" "v = d \<or> v = d + 1"
    using v by (cases "2 * r < den"; cases "2 * r > den") auto
  then have "2 * (v * den) \<le> 2 * (d * den + r) + den \<and> 2 * (d * den + r) \<le> 2 * (v * den) + den"
  proof cases
    case lo
    then show ?thesis by simp
  next
    case hi
    then show ?thesis using r by (simp add: algebra_simps)
  next
    case tie
    then show ?thesis using r by (auto simp: algebra_simps)
  qed
  then show "2 * (nearest_even num den * den) \<le> 2 * num + den"
    and "2 * num \<le> 2 * (nearest_even num den * den) + den"
    unfolding v_def num [symmetric] by simp_all
qed

lemma round_double_below:
  assumes "p \<noteq> 0" and "floor_log2 p q \<le> b" and "b \<le> 51" and "- 1022 \<le> b"
  shows "\<exists>n. round_double p q = Some (nearest_even (p * 2 ^ n) q, - int n) \<and> 52 - b \<le> int n"
proof -
  define e where "e = max (floor_log2 p q - 52) (- 1074)"
  have e: "e \<le> b - 52" "e < 0" using assms(2,3,4) by (simp_all add: e_def)
  define n where "n = nat (- e)"
  have en: "e = - int n" "nat e = 0" "nat (- e) = n" using e by (simp_all add: n_def)
  have small: "\<not> (e > 971 \<or> (e = 971 \<and> nearest_even (p * 2 ^ nat (- e)) (q * 2 ^ nat e) \<ge> 2 ^ 53))"
    using e by linarith
  have "round_double p q = Some (nearest_even (p * 2 ^ nat (- e)) (q * 2 ^ nat e), e)"
    unfolding round_double_def Let_def e_def [symmetric] if_not_P [OF assms(1)] if_not_P [OF small]
    by (rule refl)
  then have "round_double p q = Some (nearest_even (p * 2 ^ n) q, - int n)"
    by (simp add: en(2,3)) (simp add: en(1))
  moreover have "52 - b \<le> int n" using e(1) en(1) by simp
  ultimately show ?thesis by blast
qed

lemma percentage_chain:
  fixes c t m m' P Q :: nat
  assumes t: "0 < t" and tP: "100 * t < P" and tQ: "t < Q"
    and r1a: "2 * (m * t) \<le> 2 * (c * P) + t"
    and r1b: "2 * (c * P) \<le> 2 * (m * t) + t"
    and r2a: "2 * (m' * P) \<le> 2 * (m * 100 * Q) + P"
    and r2b: "2 * (m * 100 * Q) \<le> 2 * (m' * P) + P"
  shows "m' div Q \<le> (100 * c) div t" and "(100 * c) div t \<le> m' div Q + 1"
proof -
  define f where "f = (100 * c) div t"
  have P: "0 < P" and Q: "0 < Q" using tP tQ by auto
  have f1: "f * t \<le> 100 * c" unfolding f_def by (simp add: mult.commute)
  have f2: "100 * c < (f + 1) * t"
    unfolding f_def using t by (metis Suc_eq_plus1 dividend_less_div_times mult.commute mult_Suc)
  have slack: "100 * t * Q + P * t < 2 * (P * Q)"
  proof -
    have "100 * t * Q < P * Q" using tP Q by (rule mult_less_mono1)
    moreover have "P * t < P * Q" using tQ P by (rule mult_less_mono2)
    ultimately show ?thesis by linarith
  qed
  have upper: "m' < (f + 1) * Q"
  proof -
    have "2 * (m' * P) * t \<le> (2 * (m * 100 * Q) + P) * t"
      using r2a by (rule mult_le_mono1)
    also have "\<dots> = 100 * Q * (2 * (m * t)) + P * t" by (simp add: algebra_simps)
    also have "\<dots> \<le> 100 * Q * (2 * (c * P) + t) + P * t"
      using r1a by (intro add_le_mono mult_le_mono2) simp_all
    also have "\<dots> = 2 * (P * Q) * (100 * c) + (100 * t * Q + P * t)"
      by (simp add: algebra_simps)
    also have "\<dots> < 2 * (P * Q) * (100 * c) + 2 * (P * Q)"
      using slack by simp
    also have "\<dots> = 2 * (P * Q) * (100 * c + 1)" by (simp add: algebra_simps)
    also have "\<dots> \<le> 2 * (P * Q) * ((f + 1) * t)"
      using f2 by (intro mult_le_mono2) simp
    finally have "(2 * P * t) * m' < (2 * P * t) * ((f + 1) * Q)"
      by (simp add: algebra_simps)
    then show ?thesis using mult_less_cancel1 by blast
  qed
  have lower: "f * Q < m' + Q + 1"
  proof -
    have "2 * (P * Q) * (f * t) \<le> 2 * (P * Q) * (100 * c)"
      using f1 by (intro mult_le_mono2)
    also have "\<dots> = 100 * Q * (2 * (c * P))" by (simp add: algebra_simps)
    also have "\<dots> \<le> 100 * Q * (2 * (m * t) + t)"
      using r1b by (intro mult_le_mono2)
    also have "\<dots> = (2 * (m * 100 * Q)) * t + 100 * t * Q" by (simp add: algebra_simps)
    also have "\<dots> \<le> (2 * (m' * P) + P) * t + 100 * t * Q"
      using r2b by (intro add_le_mono mult_le_mono1) simp_all
    also have "\<dots> = 2 * (m' * P) * t + (100 * t * Q + P * t)" by (simp add: algebra_simps)
    also have "\<dots> < 2 * (m' * P) * t + 2 * (P * Q)" using slack by simp
    also have "\<dots> \<le> 2 * (m' * P) * t + 2 * (P * Q) * t"
      using t by simp
    finally have "(2 * P * t) * (f * Q) < (2 * P * t) * (m' + Q)"
      by (simp add: algebra_simps)
    then have "f * Q < m' + Q" using mult_less_cancel1 by blast
    then show ?thesis by simp
  qed
  show "m' div Q \<le> (100 * c) div t"
  proof -
    from upper have "m' div Q < f + 1"
      using Q by (simp add: less_mult_imp_div_less)
    then show ?thesis by (simp add: f_def)
  qed
  show "(100 * c) div t \<le> m' div Q + 1"
  proof -
    from lower have "f * Q < (m' div Q + 1 + 1) * Q"
    proof -
      have "m' < (m' div Q + 1) * Q"
        using Q by (metis Suc_eq_plus1 dividend_less_div_times mult.commute mult_Suc)
      then have "m' + Q + 1 \<le> (m' div Q + 1 + 1) * Q" by (simp add: algebra_simps)
      with lower show ?thesis by simp
    qed
    then have "f < m' div Q + 1 + 1" using mult_less_cancel2 by blast
    then show ?thesis by (simp add: f_def)
  qed
qed

lemma power_ge_of_le: "int k \<le> int n \<Longrightarrow> (2::nat) ^ k \<le> 2 ^ n"
  by (simp add: power_increasing)

lemma percentage_near_floor:
  assumes "0 \<le> cur" and "cur \<le> tot" and "0 < tot" and "tot < 2 ^ 45"
  shows "\<exists>pct. percentage cur tot = Inr pct
           \<and> spec_percentage cur tot - 1 \<le> pct \<and> pct \<le> spec_percentage cur tot"
proof (cases "cur = 0")
  case True
  have "round_double 0 (nat \<bar>tot\<bar>) = Some (0, 0)" "round_double 0 1 = Some (0, 0)"
    by (simp_all add: round_double_def)
  then have "percentage 0 tot = Inr 0"
    using assms(3) by (simp add: percentage_def trunc_double_def)
  then show ?thesis using True by (simp add: spec_percentage_def)
next
  case False
  define c where "c = nat cur"
  define t where "t = nat tot"
  have c: "0 < c" "c \<le> t" and t: "0 < t" "t < 2 ^ 45"
    using assms False by (simp_all add: c_def t_def nat_less_iff)
  have abs: "nat \<bar>cur\<bar> = c" "nat \<bar>tot\<bar> = t" using assms by (simp_all add: c_def t_def)
  \<comment> \<open>the quotient\<close>
  have "floor_log2 c t \<le> 0"
    using floor_log2_le [of c t] bit_length_mono [OF c(2)] by simp
  from round_double_below [OF _ this] c(1) obtain n where
    rd1: "round_double c t = Some (nearest_even (c * 2 ^ n) t, - int n)" and n: "52 \<le> int n"
    by auto
  define m where "m = nearest_even (c * 2 ^ n) t"
  have r1a: "2 * (m * t) \<le> 2 * (c * 2 ^ n) + t" and r1b: "2 * (c * 2 ^ n) \<le> 2 * (m * t) + t"
    unfolding m_def using nearest_even_bounds [OF t(1)] by blast+
  have P52: "(2::nat) ^ 52 \<le> 2 ^ n" using n by (intro power_ge_of_le) simp
  have tP: "100 * t < 2 ^ n"
  proof -
    have "100 * t < 100 * 2 ^ 45" using t(2) by simp
    also have "\<dots> \<le> (2::nat) ^ 52" by simp
    finally show ?thesis using P52 by simp
  qed
  have m_le: "m \<le> 2 ^ n"
  proof -
    have "2 * (c * 2 ^ n) \<le> 2 * (t * 2 ^ n)" using c(2) by simp
    with r1a have "2 * (m * t) \<le> 2 * (t * 2 ^ n) + t" by linarith
    also have "\<dots> = (2 * 2 ^ n + 1) * t" by (simp add: algebra_simps)
    finally have "(2 * m) * t \<le> (2 * 2 ^ n + 1) * t" by (simp add: algebra_simps)
    then have "2 * m \<le> 2 * 2 ^ n + 1" using t(1) mult_le_cancel2 by blast
    then show ?thesis by simp
  qed
  have m_pos: "m \<noteq> 0"
  proof
    assume "m = 0"
    with r1b have "2 * (c * 2 ^ n) \<le> t" by simp
    moreover have "(2::nat) ^ n \<le> c * 2 ^ n" using c(1) by simp
    ultimately show False using tP by simp
  qed
  \<comment> \<open>the product\<close>
  have "m * 100 < 2 ^ (n + 7)"
  proof -
    have "m * 100 \<le> 2 ^ n * 100" using m_le by simp
    also have "\<dots> < 2 ^ n * (2::nat) ^ 7" by simp
    finally show ?thesis by (simp add: power_add)
  qed
  then have "bit_length (m * 100) \<le> n + 7" by (rule bit_length_le)
  then have "floor_log2 (m * 100) (2 ^ n) \<le> 6"
    using floor_log2_le [of "m * 100" "2 ^ n"] by (simp add: bit_length_pow)
  from round_double_below [OF _ this] m_pos obtain n' where
    rd2: "round_double (m * 100) (2 ^ n)
            = Some (nearest_even (m * 100 * 2 ^ n') (2 ^ n), - int n')"
    and n': "46 \<le> int n'"
    by auto
  define m' where "m' = nearest_even (m * 100 * 2 ^ n') (2 ^ n)"
  have r2a: "2 * (m' * 2 ^ n) \<le> 2 * (m * 100 * 2 ^ n') + 2 ^ n"
    and r2b: "2 * (m * 100 * 2 ^ n') \<le> 2 * (m' * 2 ^ n) + 2 ^ n"
  proof -
    have pos: "(0::nat) < 2 ^ n" by simp
    show "2 * (m' * 2 ^ n) \<le> 2 * (m * 100 * 2 ^ n') + 2 ^ n"
      unfolding m'_def by (rule nearest_even_bounds(1) [OF pos])
    show "2 * (m * 100 * 2 ^ n') \<le> 2 * (m' * 2 ^ n) + 2 ^ n"
      unfolding m'_def by (rule nearest_even_bounds(2) [OF pos])
  qed
  have tQ: "t < 2 ^ n'"
  proof -
    have "(2::nat) ^ 46 \<le> 2 ^ n'" using n' by (intro power_ge_of_le) simp
    moreover have "t < (2::nat) ^ 46" using t(2) by simp
    ultimately show ?thesis by simp
  qed
  from percentage_chain [OF t(1) tP tQ r1a r1b r2a r2b]
  have bounds: "m' div 2 ^ n' \<le> (100 * c) div t" "(100 * c) div t \<le> m' div 2 ^ n' + 1"
    by simp_all
  \<comment> \<open>the result\<close>
  have args: "m * 100 * 2 ^ nat (- int n) = m * 100" "(2::nat) ^ nat (- (- int n)) = 2 ^ n"
    by simp_all
  have tr: "trunc_double (m', - int n') = m' div 2 ^ n'"
    by (simp add: trunc_double_def)
  have rd1': "round_double (nat \<bar>cur\<bar>) (nat \<bar>tot\<bar>) = Some (m, - int n)"
    unfolding abs m_def by (rule rd1)
  have rd2': "round_double (m * 100 * 2 ^ nat (- int n)) (2 ^ nat (- (- int n)))
                = Some (m', - int n')"
    unfolding args m'_def by (rule rd2)
  have nz: "tot \<noteq> 0" using assms(3) by simp
  have sg: "sgn cur * sgn tot = 1" using assms(1,3) False by simp
  have "percentage cur tot = Inr (int (m' div 2 ^ n'))"
    unfolding percentage_def if_not_P [OF nz] rd1' option.case prod.case rd2' tr sg
    by simp
  moreover have "spec_percentage cur tot = int ((100 * c) div t)"
    using assms(1,3) by (simp add: spec_percentage_def c_def t_def zdiv_int mult.commute)
  ultimately show ?thesis using bounds by simp
qed

section \<open>Progress tracker\<close>

text \<open>
  Two runs of the percentage, one rounding at a time: \<open>29 / 100\<close> is the double
  \<open>5224175567749775 * 2 ^ -54\<close>, and a hundred times it rounds to
  \<open>8162774324609023 * 2 ^ -48\<close>, which is below 29.
\<close>

lemma floor_log2_29_100: "floor_log2 29 100 = - 2"
  by (simp add: floor_log2_def scaled_le_def bit_length.simps)

lemma round_double_29_100: "round_double 29 100 = Some (5224175567749775, - 54)"
  by (simp add: round_double_def floor_log2_29_100 nearest_even_def)

lemma floor_log2_29: "floor_log2 522417556774977500 18014398509481984 = 4"
  by (simp add: floor_log2_def scaled_le_def bit_length.simps)

lemma round_double_29:
  "round_double 522417556774977500 18014398509481984 = Some (8162774324609023, - 48)"
  by (simp add: round_double_def floor_log2_29 nearest_even_def)

lemma percentage_29_100: "percentage 29 100 = Inr 28"
  by (simp add: percentage_def round_double_29_100 round_double_29 trunc_double_def)

lemma floor_log2_3_10: "floor_log2 3 10 = - 2"
  by (simp add: floor_log2_def scaled_le_def bit_length.simps)

lemma round_double_3_10: "round_double 3 10 = Some (5404319552844595, - 54)"
  by (simp add: round_double_def floor_log2_3_10 nearest_even_def)

lemma floor_log2_30: "floor_log2 540431955284459500 18014398509481984 = 4"
  by (simp add: floor_log2_def scaled_le_def bit_length.simps)

lemma round_double_30:
  "round_double 540431955284459500 18014398509481984 = Some (8444249301319680, - 48)"
  by (simp add: round_double_def floor_log2_30 nearest_even_def)

lemma percentage_3_10: "percentage 3 10 = Inr 30"
  by (simp add: percentage_def round_double_3_10 round_double_30 trunc_double_def)

lemma progress_no_increase:
  assumes "percentage (current_count s) (total_count s) = Inr pct"
    and "pct \<le> reported_progress s"
  shows "progress render s w = (Inr (s\<lparr>reported_progress := pct\<rparr>), w)"
  using assms by (simp add: progress_def)

lemma progress_increase:
  assumes "percentage (current_count s) (total_count s) = Inr pct"
    and "pct > reported_progress s"
    and "render (start s) pct (current_count s) (total_count s) = Inr line"
  shows "progress render s w = (Inr (s\<lparr>reported_progress := pct\<rparr>), print [PStr line] w)"
  using assms by (simp add: progress_def)

lemma progress_result:
  assumes "progress render s w = (Inr s1, w1)"
  shows "\<exists>pct. percentage (current_count s) (total_count s) = Inr pct
           \<and> s1 = s\<lparr>reported_progress := pct\<rparr>"
  using assms
  by (auto simp: progress_def split: sum.splits if_splits)

lemma progress_again:
  assumes "progress render s w = (Inr s1, w1)"
  shows "progress render (update s1 0) w1 = (Inr s1, w1)"
proof -
  from progress_result [OF assms] obtain pct where
    p: "percentage (current_count s) (total_count s) = Inr pct"
    and s1: "s1 = s\<lparr>reported_progress := pct\<rparr>" by blast
  have same: "update s1 0 = s1" by (simp add: update_def)
  have "percentage (current_count s1) (total_count s1) = Inr pct"
    using p s1 by simp
  moreover have "pct \<le> reported_progress s1" using s1 by simp
  ultimately have "progress render s1 w1 = (Inr (s1\<lparr>reported_progress := pct\<rparr>), w1)"
    by (rule progress_no_increase)
  then show ?thesis using same s1 by simp
qed

text \<open>
  The rule of \<open>progress()\<close> once the percentage is computed: nothing is printed when it
  is not greater than the last reported one, the report is printed when it is greater
  (and rendering it does not raise), and in both cases the last reported percentage
  becomes the new one; after a \<open>progress()\<close> that returned, \<open>update(0)\<close> followed by
  \<open>progress()\<close> prints nothing and changes nothing.
\<close>

lemma progress_rule:
  assumes "percentage (current_count s) (total_count s) = Inr pct"
  shows "(pct \<le> reported_progress s \<longrightarrow>
            progress render s w = (Inr (s\<lparr>reported_progress := pct\<rparr>), w))
       \<and> (\<forall>line. pct > reported_progress s
              \<and> render (start s) pct (current_count s) (total_count s) = Inr line \<longrightarrow>
            progress render s w = (Inr (s\<lparr>reported_progress := pct\<rparr>), print [PStr line] w))
       \<and> (\<forall>s1 w1. progress render s w = (Inr s1, w1) \<longrightarrow>
            progress render (update s1 0) w1 = (Inr s1, w1))"
  using progress_no_increase [OF assms] progress_increase [OF assms] progress_again
  by blast

lemma progress_rule_example:
  "progress (\<lambda>t0 pct cur tot. Inr ''report'')
     (update (UploadStatus_init 0 10) 3) \<lparr>sent = [], stdout = []\<rparr>
   = (Inr \<lparr>total_count = 10, current_count = 3, start = 0, reported_progress = 30\<rparr>,
      \<lparr>sent = [], stdout = [[PStr ''report'']]\<rparr>)
   \<and> progress (\<lambda>t0 pct cur tot. Inr ''report'')
     (update \<lparr>total_count = 10, current_count = 3, start = 0, reported_progress = 30\<rparr> 0)
     \<lparr>sent = [], stdout = [[PStr ''report'']]\<rparr>
   = (Inr \<lparr>total_count = 10, current_count = 3, start = 0, reported_progress = 30\<rparr>,
      \<lparr>sent = [], stdout = [[PStr ''report'']]\<rparr>)"
proof -
  let ?s = "update (UploadStatus_init 0 10) 3"
  have s: "?s = \<lparr>total_count = 10, current_count = 3, start = 0, reported_progress = 0\<rparr>"
    by (simp add: update_def UploadStatus_init_def)
  have p: "percentage (current_count ?s) (total_count ?s) = Inr 30"
    by (simp add: s percentage_3_10)
  from progress_rule
    [OF p, of "\<lambda>t0 pct cur tot. Inr ''report''" "\<lparr>sent = [], stdout = []\<rparr>"]
  show ?thesis by (simp add: s print_def)
qed

text \<open>
  C3. The specification gives the percentage as the floor of
  \<open>current_count / total_count * 100\<close>. The code computes this expression in double
  precision and truncates: after \<open>UploadStatus(100)\<close> and \<open>update(29)\<close>, the quotient
  \<open>29 / 100\<close> rounds to a double just below 0.29, a hundred times it rounds to a double
  just below 29, and \<open>progress()\<close> reports and stores 28, where the floor of the exact
  value is 29.
\<close>

theorem progress_percentage_below_floor:
  "progress (\<lambda>t0 pct cur tot. Inr ''report'')
     (update (UploadStatus_init 0 100) 29) \<lparr>sent = [], stdout = []\<rparr>
   = (Inr \<lparr>total_count = 100, current_count = 29, start = 0, reported_progress = 28\<rparr>,
      \<lparr>sent = [], stdout = [[PStr ''report'']]\<rparr>)
   \<and> percentage 29 100 = Inr 28
   \<and> spec_percentage 29 100 = 29"
  by (simp add: progress_def percentage_29_100 print_def spec_percentage_def update_def
      UploadStatus_init_def)

section \<open>Upload pipeline\<close>

lemma post_authenticated:
  assumes "token s \<noteq> None"
  shows "post net s args w
         = (net \<lparr>r_method = POST, r_args = args, r_headers = [Authorization_Token (the (token s))]\<rparr>,
            w\<lparr>sent := sent w
               @ [\<lparr>r_method = POST, r_args = args,
                   r_headers = [Authorization_Token (the (token s))]\<rparr>]\<rparr>)"
  using assms by (simp add: post_def auth_header_def is_authenticated_def requests_call_def Let_def)

lemma progress_world:
  assumes "progress render st w = (pr, w')"
  shows "sent w' = sent w \<and> (\<exists>rest. stdout w' = stdout w @ rest)"
  using assms
  by (auto simp: progress_def print_def split: sum.splits if_splits)

lemma progress_counts:
  assumes "progress render st w = (Inr st', w')"
  shows "current_count st' = current_count st \<and> total_count st' = total_count st"
  using progress_result [OF assms] by auto

text \<open>The world after the request of a batch and the report of its failure, if any.\<close>

lemma upload_files_response:
  assumes auth: "token s \<noteq> None"
    and readable: "\<forall>path\<in>set bulk. env_readable ev path"
    and u: "upload_url ev s dataset_id folder_id annotation_set_id = Inr u"
    and resp: "env_net ev (upload_request s u bulk (upload_data annotation_task class_encoding))
               = Inr r"
    and w1: "w1 = w\<lparr>sent := sent w
               @ [upload_request s u bulk (upload_data annotation_task class_encoding)]\<rparr>"
    and w2: "w2 = (if status_code r \<noteq> 200
                         then print [PStr ''Possible Error - Response:'', PStr (text_body r),
                                     PStr ''files:'', PPaths bulk] w1
                         else w1)"
    and pr: "progress (env_render ev) (update st (int (length bulk))) w2 = (pr, w3)"
  shows "upload_files ev s dataset_id bulk annotation_task folder_id (Some st)
           annotation_set_id class_encoding w
         = ((case pr of Inl e \<Rightarrow> Inl e | Inr st2 \<Rightarrow> json_result r,
             Some (case pr of Inl e \<Rightarrow> update st (int (length bulk)) | Inr st2 \<Rightarrow> st2)),
            w3)"
proof -
  have p: "post (env_net ev) s (upload_args u bulk (upload_data annotation_task class_encoding)) w
             = (Inr r, w1)"
    using post_authenticated [OF auth] resp by (simp add: upload_request_def w1)
  have nr: "\<not> (\<exists>path\<in>set bulk. \<not> env_readable ev path)" using readable by blast
  show ?thesis
    unfolding upload_files_def if_not_P [OF nr] Let_def u sum.case p prod.case
      w2 [symmetric] option.case pr
    by (cases pr) simp_all
qed

lemma upload_files_counts:
  assumes auth: "token s \<noteq> None"
    and readable: "\<forall>path\<in>set bulk. env_readable ev path"
    and u: "upload_url ev s dataset_id folder_id annotation_set_id = Inr u"
    and resp: "env_net ev (upload_request s u bulk (upload_data annotation_task class_encoding))
               = Inr r"
  shows "\<exists>res st' w'.
           upload_files ev s dataset_id bulk annotation_task folder_id (Some st)
             annotation_set_id class_encoding w = ((res, Some st'), w')
         \<and> sent w' = sent w
              @ [upload_request s u bulk (upload_data annotation_task class_encoding)]
         \<and> (\<exists>rest. stdout w' = stdout w
              @ (if status_code r \<noteq> 200
                 then [[PStr ''Possible Error - Response:'', PStr (text_body r),
                        PStr ''files:'', PPaths bulk]]
                 else []) @ rest)
         \<and> current_count st' = current_count st + int (length bulk)
         \<and> total_count st' = total_count st"
proof -
  define w1 where "w1 = w\<lparr>sent := sent w
               @ [upload_request s u bulk (upload_data annotation_task class_encoding)]\<rparr>"
  define w2 where "w2 = (if status_code r \<noteq> 200
                         then print [PStr ''Possible Error - Response:'', PStr (text_body r),
                                     PStr ''files:'', PPaths bulk] w1
                         else w1)"
  obtain pr w3 where pr: "progress (env_render ev) (update st (int (length bulk))) w2 = (pr, w3)"
    by (cases "progress (env_render ev) (update st (int (length bulk))) w2") blast
  note run = upload_files_response [OF auth readable u resp w1_def w2_def pr]
  from progress_world [OF pr] obtain rest where
    sent3: "sent w3 = sent w2" and out3: "stdout w3 = stdout w2 @ rest" by blast
  have sent2: "sent w2 = sent w
                 @ [upload_request s u bulk (upload_data annotation_task class_encoding)]"
    by (simp add: w2_def w1_def print_def)
  have out2: "stdout w2 = stdout w
                 @ (if status_code r \<noteq> 200
                    then [[PStr ''Possible Error - Response:'', PStr (text_body r),
                           PStr ''files:'', PPaths bulk]]
                    else [])"
    by (simp add: w2_def w1_def print_def)
  have counts:
    "current_count (case pr of Inl e \<Rightarrow> update st (int (length bulk)) | Inr st2 \<Rightarrow> st2)
       = current_count st + int (length bulk)
     \<and> total_count (case pr of Inl e \<Rightarrow> update st (int (length bulk)) | Inr st2 \<Rightarrow> st2)
       = total_count st"
  proof (cases pr)
    case (Inl e)
    then show ?thesis by (simp add: update_def)
  next
    case (Inr st2)
    with pr progress_counts [of "env_render ev" "update st (int (length bulk))" w2 st2 w3]
    show ?thesis by (simp add: update_def)
  qed
  have "sent w3 = sent w
          @ [upload_request s u bulk (upload_data annotation_task class_encoding)]"
    using sent3 sent2 by simp
  moreover have "\<exists>rest. stdout w3 = stdout w
          @ (if status_code r \<noteq> 200
             then [[PStr ''Possible Error - Response:'', PStr (text_body r),
                    PStr ''files:'', PPaths bulk]]
             else []) @ rest"
    using out3 out2 by simp
  ultimately show ?thesis using run counts by blast
qed

lemma upload_all_sends_every_batch:
  assumes auth: "token s \<noteq> None"
    and u: "upload_url ev s dataset_id folder_id annotation_set_id = Inr u"
    and readable: "\<forall>bulk\<in>set groups. \<forall>path\<in>set bulk. env_readable ev path"
    and resp: "\<forall>bulk\<in>set groups. \<exists>r.
                 env_net ev (upload_request s u bulk (upload_data annotation_task class_encoding))
                 = Inr r"
  shows "\<exists>rs st' w'.
           upload_all ev s dataset_id annotation_task folder_id annotation_set_id class_encoding
             groups (Some st) w = ((rs, Some st'), w')
         \<and> length rs = length groups
         \<and> sent w' = sent w
              @ map (\<lambda>bulk. upload_request s u bulk (upload_data annotation_task class_encoding))
                  groups
         \<and> current_count st' = current_count st + int (length (concat groups))"
  using readable resp
proof (induction groups arbitrary: st w)
  case Nil
  then show ?case by simp
next
  case (Cons bulk groups)
  from Cons.prems obtain r where
    r: "env_net ev (upload_request s u bulk (upload_data annotation_task class_encoding)) = Inr r"
    by auto
  have rd: "\<forall>path\<in>set bulk. env_readable ev path" using Cons.prems by simp
  from upload_files_counts [OF auth rd u r, of st w] obtain res st1 w1 where
    one: "upload_files ev s dataset_id bulk annotation_task folder_id (Some st)
            annotation_set_id class_encoding w = ((res, Some st1), w1)"
    and sent1: "sent w1 = sent w
                  @ [upload_request s u bulk (upload_data annotation_task class_encoding)]"
    and cnt1: "current_count st1 = current_count st + int (length bulk)"
    by blast
  have "\<forall>bulk\<in>set groups. \<forall>path\<in>set bulk. env_readable ev path"
    and "\<forall>bulk\<in>set groups. \<exists>r.
           env_net ev (upload_request s u bulk (upload_data annotation_task class_encoding))
           = Inr r"
    using Cons.prems by simp_all
  from Cons.IH [OF this, of st1 w1] obtain rs st2 w2 where
    rest: "upload_all ev s dataset_id annotation_task folder_id annotation_set_id
             class_encoding groups (Some st1) w1 = ((rs, Some st2), w2)"
    and len: "length rs = length groups"
    and sent2: "sent w2 = sent w1
                  @ map (\<lambda>bulk. upload_request s u bulk
                                   (upload_data annotation_task class_encoding)) groups"
    and cnt2: "current_count st2 = current_count st1 + int (length (concat groups))"
    by blast
  have "upload_all ev s dataset_id annotation_task folder_id annotation_set_id class_encoding
          (bulk # groups) (Some st) w = ((res # rs, Some st2), w2)"
    using one rest by simp
  then show ?case using len sent1 sent2 cnt1 cnt2 by simp
qed


lemma upload_files_failed_status:
  assumes auth: "token s \<noteq> None"
    and readable: "\<forall>path\<in>set bulk. env_readable ev path"
    and u: "upload_url ev s dataset_id folder_id annotation_set_id = Inr u"
    and resp: "env_net ev (upload_request s u bulk (upload_data annotation_task class_encoding))
               = Inr r"
    and failed: "status_code r \<noteq> 200"
  shows "\<exists>res st' w' pr rest.
           upload_files ev s dataset_id bulk annotation_task folder_id (Some st)
             annotation_set_id class_encoding w = ((res, Some st'), w')
         \<and> progress (env_render ev) (update st (int (length bulk)))
              (print [PStr ''Possible Error - Response:'', PStr (text_body r),
                       PStr ''files:'', PPaths bulk]
                 (w\<lparr>sent := sent w
                    @ [upload_request s u bulk (upload_data annotation_task class_encoding)]\<rparr>))
             = (pr, w')
         \<and> sent w' = sent w
              @ [upload_request s u bulk (upload_data annotation_task class_encoding)]
         \<and> stdout w' = stdout w @ [PStr ''Possible Error - Response:'', PStr (text_body r),
                                         PStr ''files:'', PPaths bulk] # rest
         \<and> current_count st' = current_count st + int (length bulk)"
proof -
  define w1 where "w1 = w\<lparr>sent := sent w
               @ [upload_request s u bulk (upload_data annotation_task class_encoding)]\<rparr>"
  define w2 where "w2 = (if status_code r \<noteq> 200
                         then print [PStr ''Possible Error - Response:'', PStr (text_body r),
                                     PStr ''files:'', PPaths bulk] w1
                         else w1)"
  have w2': "w2 = print [PStr ''Possible Error - Response:'', PStr (text_body r),
                          PStr ''files:'', PPaths bulk] w1" using failed by (simp add: w2_def)
  obtain pr w3 where pr: "progress (env_render ev) (update st (int (length bulk))) w2 = (pr, w3)"
    by (cases "progress (env_render ev) (update st (int (length bulk))) w2") blast
  note run = upload_files_response [OF auth readable u resp w1_def w2_def pr]
  from progress_world [OF pr] obtain rest where
    sent3: "sent w3 = sent w2" and out3: "stdout w3 = stdout w2 @ rest" by blast
  have "sent w3 = sent w
          @ [upload_request s u bulk (upload_data annotation_task class_encoding)]"
    using sent3 by (simp add: w2' w1_def print_def)
  moreover have "stdout w3 = stdout w @ [PStr ''Possible Error - Response:'', PStr (text_body r),
                                          PStr ''files:'', PPaths bulk] # rest"
    using out3 by (simp add: w2' w1_def print_def)
  moreover have
    "current_count (case pr of Inl e \<Rightarrow> update st (int (length bulk)) | Inr st2 \<Rightarrow> st2)
       = current_count st + int (length bulk)"
  proof (cases pr)
    case (Inl e)
    then show ?thesis by (simp add: update_def)
  next
    case (Inr st2)
    with pr progress_counts [of "env_render ev" "update st (int (length bulk))" w2 st2 w3]
    show ?thesis by (simp add: update_def)
  qed
  moreover have "progress (env_render ev) (update st (int (length bulk)))
                   (print [PStr ''Possible Error - Response:'', PStr (text_body r),
                            PStr ''files:'', PPaths bulk] w1) = (pr, w3)"
    using pr by (simp add: w2')
  ultimately show ?thesis using run unfolding w1_def by blast
qed

text \<open>
  C6. On an authenticated session, with readable files and an upload URL that can be
  built, let every batch's request return a response. A batch whose response has a status
  other than 200 does not raise for that: \<open>upload_files\<close> sends the request, prints the
  failure with the response's text and the batch's files, adds the batch's file count
  to the tracker and calls \<open>progress()\<close> on it. And all the batches are processed,
  whatever their statuses: one outcome and one request per batch, in order, and the
  tracker has counted every file.
\<close>

theorem failed_batch_does_not_abort:
  assumes "token s \<noteq> None"
    and "upload_url ev s dataset_id folder_id annotation_set_id = Inr u"
    and "\<forall>bulk\<in>set groups. \<forall>path\<in>set bulk. env_readable ev path"
    and "\<forall>bulk\<in>set groups. \<exists>r.
           env_net ev (upload_request s u bulk (upload_data annotation_task class_encoding))
           = Inr r"
  shows "(\<forall>bulk r. bulk \<in> set groups
            \<and> env_net ev (upload_request s u bulk (upload_data annotation_task class_encoding))
                = Inr r
            \<and> status_code r \<noteq> 200 \<longrightarrow>
            (\<exists>res st' w' pr rest.
               upload_files ev s dataset_id bulk annotation_task folder_id (Some st)
                 annotation_set_id class_encoding w = ((res, Some st'), w')
             \<and> progress (env_render ev) (update st (int (length bulk)))
                  (print [PStr ''Possible Error - Response:'', PStr (text_body r),
                           PStr ''files:'', PPaths bulk]
                     (w\<lparr>sent := sent w
                        @ [upload_request s u bulk
                             (upload_data annotation_task class_encoding)]\<rparr>))
                 = (pr, w')
             \<and> sent w' = sent w
                  @ [upload_request s u bulk (upload_data annotation_task class_encoding)]
             \<and> stdout w' = stdout w @ [PStr ''Possible Error - Response:'', PStr (text_body r),
                                             PStr ''files:'', PPaths bulk] # rest
             \<and> current_count st' = current_count st + int (length bulk)))
       \<and> (\<exists>rs st' w'.
             upload_all ev s dataset_id annotation_task folder_id annotation_set_id
               class_encoding groups (Some st) w = ((rs, Some st'), w')
           \<and> length rs = length groups
           \<and> sent w' = sent w
                @ map (\<lambda>bulk. upload_request s u bulk
                                 (upload_data annotation_task class_encoding)) groups
           \<and> current_count st' = current_count st + int (length (concat groups)))"
proof (intro conjI allI impI)
  fix bulk r
  assume b: "bulk \<in> set groups
            \<and> env_net ev (upload_request s u bulk (upload_data annotation_task class_encoding))
                = Inr r
            \<and> status_code r \<noteq> 200"
  then have rd: "\<forall>path\<in>set bulk. env_readable ev path" using assms(3) by blast
  from b upload_files_failed_status [OF assms(1) rd assms(2), of annotation_task class_encoding r st w]
  show "\<exists>res st' w' pr rest.
               upload_files ev s dataset_id bulk annotation_task folder_id (Some st)
                 annotation_set_id class_encoding w = ((res, Some st'), w')
             \<and> progress (env_render ev) (update st (int (length bulk)))
                  (print [PStr ''Possible Error - Response:'', PStr (text_body r),
                           PStr ''files:'', PPaths bulk]
                     (w\<lparr>sent := sent w
                        @ [upload_request s u bulk
                             (upload_data annotation_task class_encoding)]\<rparr>))
                 = (pr, w')
             \<and> sent w' = sent w
                  @ [upload_request s u bulk (upload_data annotation_task class_encoding)]
             \<and> stdout w' = stdout w @ [PStr ''Possible Error - Response:'', PStr (text_body r),
                                             PStr ''files:'', PPaths bulk] # rest
             \<and> current_count st' = current_count st + int (length bulk)"
    by blast
next
  show "\<exists>rs st' w'.
             upload_all ev s dataset_id annotation_task folder_id annotation_set_id
               class_encoding groups (Some st) w = ((rs, Some st'), w')
           \<and> length rs = length groups
           \<and> sent w' = sent w
                @ map (\<lambda>bulk. upload_request s u bulk
                                 (upload_data annotation_task class_encoding)) groups
           \<and> current_count st' = current_count st + int (length (concat groups))"
    by (rule upload_all_sends_every_batch [OF assms(1) assms(2) assms(3) assms(4)])
qed

lemma example_upload_url:
  "upload_url example_env example_session (AInt 1) ANone ANone = Inr ''http://s/upload''"
  by (simp add: upload_url_def example_env_def example_session_def url_def build_url_def
      strip_slash_def)

theorem failed_batch_does_not_abort_witness:
  "(\<exists>res st' w' pr rest.
      upload_files example_env example_session (AInt 1) [''a''] ANone ANone
        (Some (UploadStatus_init 0 2)) ANone None \<lparr>sent = [], stdout = []\<rparr>
        = ((res, Some st'), w')
    \<and> stdout w' = [PStr ''Possible Error - Response:'', PStr ''{}'', PStr ''files:'',
                    PPaths [''a'']] # rest
    \<and> current_count st' = 1)
   \<and> (\<exists>rs st' w'.
        upload_all example_env example_session (AInt 1) ANone ANone ANone None
          [[''a''], [''b'']] (Some (UploadStatus_init 0 2)) \<lparr>sent = [], stdout = []\<rparr>
          = ((rs, Some st'), w')
      \<and> length rs = 2
      \<and> sent w' = [upload_request example_session ''http://s/upload'' [''a''] [],
                     upload_request example_session ''http://s/upload'' [''b''] []]
      \<and> current_count st' = 2)"
proof -
  have auth: "token example_session \<noteq> None" by (simp add: example_session_def)
  have rd: "\<forall>bulk\<in>set [[''a''], [''b'']]. \<forall>path\<in>set bulk. env_readable example_env path"
    by (simp add: example_env_def)
  have resp: "\<forall>bulk\<in>set [[''a''], [''b'']]. \<exists>r.
      env_net example_env (upload_request example_session ''http://s/upload'' bulk
        (upload_data ANone None)) = Inr r"
    by (simp add: example_env_def)
  have failure: "[''a''] \<in> set [[''a''], [''b'']]
      \<and> env_net example_env (upload_request example_session ''http://s/upload'' [''a'']
          (upload_data ANone None)) = Inr example_failure
      \<and> status_code example_failure \<noteq> 200"
    by (simp add: example_env_def upload_request_def upload_args_def example_failure_def)
  note inst = failed_batch_does_not_abort [OF auth example_upload_url rd resp,
      of "UploadStatus_init 0 2" "\<lparr>sent = [], stdout = []\<rparr>"]
  have data: "upload_data ANone None = []" by (simp add: upload_data_def)
  have c0: "current_count (UploadStatus_init 0 2) = 0" by (simp add: UploadStatus_init_def)
  from inst failure have
    "\<exists>res st' w' pr rest.
      upload_files example_env example_session (AInt 1) [''a''] ANone ANone
        (Some (UploadStatus_init 0 2)) ANone None \<lparr>sent = [], stdout = []\<rparr>
        = ((res, Some st'), w')
    \<and> stdout w' = stdout \<lparr>sent = [], stdout = []\<rparr>
         @ [PStr ''Possible Error - Response:'', PStr (text_body example_failure),
            PStr ''files:'', PPaths [''a'']] # rest
    \<and> current_count st' = current_count (UploadStatus_init 0 2) + int (length [''a''])"
    by blast
  moreover from inst have
    "\<exists>rs st' w'.
        upload_all example_env example_session (AInt 1) ANone ANone ANone None
          [[''a''], [''b'']] (Some (UploadStatus_init 0 2)) \<lparr>sent = [], stdout = []\<rparr>
          = ((rs, Some st'), w')
      \<and> length rs = length [[''a''], [''b'']]
      \<and> sent w' = sent \<lparr>sent = [], stdout = []\<rparr>
           @ map (\<lambda>bulk. upload_request example_session ''http://s/upload'' bulk
                            (upload_data ANone None)) [[''a''], [''b'']]
      \<and> current_count st' = current_count (UploadStatus_init 0 2)
           + int (length (concat [[''a''], [''b'']]))"
    by blast
  ultimately show ?thesis
    by (simp del: upload_all.simps add: data c0 numeral_2_eq_2 example_failure_def)
qed












end
